theory Spec2Isabelle
  imports Main "HOL-Library.Sublist" "HOL-Library.AList" "HOL-Library.Char_ord" "HOL-Library.List_Lexorder"
begin

section \<open>JavaScript values used by the services\<close>

text \<open>
  Strings are byte lists. The services only cut strings at ASCII characters (newline,
  slash, white space), so cutting the UTF-8 bytes gives the same pieces as cutting the
  UTF-16 code units of the JavaScript string.

  A JavaScript number that comes out of \<open>parseInt\<close> is an integer or \<open>NaN\<close>.
  The integer is kept exact here; JavaScript rounds a numeral above \<open>2^53\<close> to the
  nearest double, so the model agrees with the code on numerals below that bound, which
  port labels are.
\<close>

datatype jsnum = NaN | Num int

text \<open>A thrown \<open>Error\<close> object, with its \<open>message\<close>. Every value thrown in
  the two services is an \<open>Error\<close> (rejections of the process executor, \<open>new Error\<close>),
  so the \<open>"Unknown error"\<close> alternative of the catch blocks is never taken.\<close>

datatype error = Error string

fun message :: "error \<Rightarrow> string" where
  "message (Error m) = m"

definition isWhiteSpace :: "char \<Rightarrow> bool" where
  "isWhiteSpace c \<longleftrightarrow>
     c = CHR '' '' \<or> c = CHR 0x09 \<or> c = CHR 0x0A \<or> c = CHR 0x0B \<or> c = CHR 0x0C \<or> c = CHR 0x0D"

text \<open>
  \<open>String.prototype.trim\<close> on the ASCII white space characters. JavaScript also
  trims the no-break space, the byte order mark, the Unicode space separators and the
  line and paragraph separators; these are left in place here, so the model agrees with
  the code on outputs whose leading and trailing white space is ASCII, as printed by
  \<open>podman\<close>, \<open>lsof\<close>, \<open>find\<close> and \<open>stat\<close>.
\<close>

definition trim :: "string \<Rightarrow> string" where
  "trim s = rev (dropWhile isWhiteSpace (rev (dropWhile isWhiteSpace s)))"

text \<open>\<open>s.split(d)\<close> for a one-character separator: never the empty list.\<close>

fun split :: "char \<Rightarrow> string \<Rightarrow> string list" where
  "split d [] = [[]]"
| "split d (c # cs) =
     (if c = d then [] # split d cs
      else (case split d cs of [] \<Rightarrow> [[c]] | p # ps \<Rightarrow> (c # p) # ps))"

text \<open>\<open>s.lastIndexOf("/")\<close>: the index of the last slash, or \<open>-1\<close>.\<close>

fun lastIndexOf :: "char \<Rightarrow> string \<Rightarrow> int" where
  "lastIndexOf d [] = -1"
| "lastIndexOf d (c # cs) =
     (let r = lastIndexOf d cs
      in if 0 \<le> r then r + 1 else if c = d then 0 else -1)"

text \<open>\<open>s.substring(0, i)\<close>: a negative end counts as \<open>0\<close>.\<close>

definition substring0 :: "string \<Rightarrow> int \<Rightarrow> string" where
  "substring0 s i = take (nat i) s"

text \<open>\<open>s.replace(pat, "")\<close> with a string pattern: the first occurrence goes.\<close>

fun replaceFirst :: "string \<Rightarrow> string \<Rightarrow> string" where
  "replaceFirst pat [] = []"
| "replaceFirst pat (c # cs) =
     (if prefix pat (c # cs) then drop (length pat) (c # cs) else c # replaceFirst pat cs)"

text \<open>\<open>s.includes(pat)\<close>.\<close>

fun str_includes :: "string \<Rightarrow> string \<Rightarrow> bool" where
  "str_includes [] pat = (pat = [])"
| "str_includes (c # cs) pat = (prefix pat (c # cs) \<or> str_includes cs pat)"

text \<open>
  \<open>parseInt(s)\<close> with no radix: leading white space and one sign are skipped, a
  \<open>0x\<close> prefix selects base 16, the longest run of digits is read, and no digit at
  all gives \<open>NaN\<close>.
\<close>

definition digitVal :: "char \<Rightarrow> nat option" where
  "digitVal c =
     (let n = (of_char c :: nat)
      in if 48 \<le> n \<and> n \<le> 57 then Some (n - 48)
         else if 97 \<le> n \<and> n \<le> 122 then Some (n - 87)
         else if 65 \<le> n \<and> n \<le> 90 then Some (n - 55)
         else None)"

definition isDigit :: "nat \<Rightarrow> char \<Rightarrow> bool" where
  "isDigit radix c = (case digitVal c of None \<Rightarrow> False | Some v \<Rightarrow> v < radix)"

definition digitsValue :: "nat \<Rightarrow> string \<Rightarrow> int" where
  "digitsValue radix ds = foldl (\<lambda>acc c. acc * int radix + int (case digitVal c of None \<Rightarrow> 0 | Some v \<Rightarrow> v)) 0 ds"

definition parseDigits :: "nat \<Rightarrow> string \<Rightarrow> int option" where
  "parseDigits radix s =
     (let ds = takeWhile (isDigit radix) s
      in if ds = [] then None else Some (digitsValue radix ds))"

definition parseUnsigned :: "string \<Rightarrow> int option" where
  "parseUnsigned s =
     (if prefix ''0x'' s \<or> prefix ''0X'' s then parseDigits 16 (drop 2 s)
      else parseDigits 10 s)"

definition parseInt :: "string \<Rightarrow> jsnum" where
  "parseInt s =
     (let t = dropWhile isWhiteSpace s
      in case t of
           [] \<Rightarrow> NaN
         | c # cs \<Rightarrow>
             if c = CHR ''-'' then (case parseUnsigned cs of None \<Rightarrow> NaN | Some v \<Rightarrow> Num (- v))
             else if c = CHR ''+'' then (case parseUnsigned cs of None \<Rightarrow> NaN | Some v \<Rightarrow> Num v)
             else (case parseUnsigned t of None \<Rightarrow> NaN | Some v \<Rightarrow> Num v))"

section \<open>The outside world: the process executor\<close>

text \<open>
  Every command line the services run, by the template that builds it:
  \<^item> \<open>PodmanPsLabels\<close>: \<^verbatim>\<open>podman ps -a --filter label=project=december --format '{{.Labels.assignedPort}}'\<close>
  \<^item> \<open>Lsof p\<close>: \<^verbatim>\<open>lsof -i :${port}\<close>
  \<^item> \<open>PodmanInspect c\<close>, \<open>PodmanStart c\<close>, \<open>PodmanStop c\<close>: \<^verbatim>\<open>podman inspect|start|stop ${containerId}\<close>
  \<^item> \<open>PodmanRm c\<close>: \<^verbatim>\<open>podman rm -f ${containerId}\<close>
  \<^item> \<open>PodmanRmi i\<close>: \<^verbatim>\<open>podman rmi -f ${imageName}\<close>
  \<^item> \<open>FindTree c p\<close>, \<open>FindContentTree c p\<close>: the \<^verbatim>\<open>find ${containerPath} ... | grep -v ... | sort\<close>
    pipelines of \<open>getFileTree\<close> and \<open>getFileContentTree\<close>, run through \<open>execInContainer\<close>
  \<^item> \<open>Stat c p\<close>: \<^verbatim>\<open>stat -c "%F" "${filePath}"\<close> through \<open>execInContainer\<close>
  \<^item> \<open>Cat c p\<close>: \<^verbatim>\<open>cat "${filePath}" | head -c 10000000\<close> through \<open>execInContainer\<close>
  \<^item> \<open>PodmanCp t c p\<close>: \<^verbatim>\<open>podman cp "${tempFile}" "${containerId}:${absolutePath}"\<close>
  \<^item> \<open>Mkdir c d\<close>: \<^verbatim>\<open>podman exec "${containerId}" mkdir -p "${dirPath}"\<close>
  \<^item> \<open>Head5 c p\<close>: \<^verbatim>\<open>podman exec "${containerId}" head -n 5 "${absolutePath}"\<close>
  \<^item> \<open>FsWriteFile t content\<close>, \<open>FsUnlink t\<close>: \<open>fs.writeFile(tempFile, content, "utf8")\<close> and
    \<open>fs.unlink(tempFile)\<close> of the local file system.
\<close>

datatype cmd =
    PodmanPsLabels
  | Lsof jsnum
  | PodmanInspect string
  | PodmanStart string
  | PodmanStop string
  | PodmanRm string
  | PodmanRmi string
  | FindTree string string
  | FindContentTree string string
  | Stat string string
  | Cat string string
  | PodmanCp string string string
  | Mkdir string string
  | Head5 string string
  | FsWriteFile string string
  | FsUnlink string

text \<open>
  What the process does that can be observed: a command handed to the executor,
  \<open>usedPorts.add(p)\<close> and \<open>usedPorts.delete(p)\<close>.
\<close>

datatype event = Exec cmd | Reserve jsnum | Release jsnum

text \<open>
  The fields of an inspected container that the service reads:
  \<open>State.Running\<close>, \<open>HostConfig?.PortBindings?.["3000/tcp"][0]?.HostPort\<close>,
  \<open>Config.Labels?.assignedPort\<close> and \<open>Config.Image\<close>; an absent field is \<open>None\<close>.
  The objects \<open>State\<close> and \<open>Config\<close> themselves are taken to be there, as
  \<open>podman inspect\<close> prints them for every container.
\<close>

record containerInfo =
  Running :: bool
  HostPort :: "string option"
  assignedPort :: "string option"
  Image :: "string option"

text \<open>
  The world answers a command with the captured standard output (\<open>Inr\<close>) or rejects
  with an error (\<open>Inl\<close>); the answer may depend on everything that happened before.
  \<open>jsonInspect\<close> is \<open>JSON.parse\<close> of the output of \<open>podman inspect\<close>, followed by
  the choice of the first element of an array and the reading of the fields above. It
  throws on text that is not JSON; an empty array, whose first element is
  \<open>undefined\<close>, makes the caller's first read of a field throw inside the same
  \<open>try\<close> block before anything else is done, and counts as a throw here.
\<close>

record world =
  exec :: "event list \<Rightarrow> cmd \<Rightarrow> error + string"
  jsonInspect :: "string \<Rightarrow> error + containerInfo"

text \<open>The state of the process: the module-level set \<open>usedPorts\<close>, and the trace.\<close>

record state =
  usedPorts :: "jsnum set"
  events :: "event list"

definition execAsync :: "world \<Rightarrow> state \<Rightarrow> cmd \<Rightarrow> (error + string) \<times> state" where
  "execAsync w s c = (exec w (events s) c, s\<lparr>events := events s @ [Exec c]\<rparr>)"

definition usedPorts_add :: "jsnum \<Rightarrow> state \<Rightarrow> state" where
  "usedPorts_add p s = s\<lparr>usedPorts := insert p (usedPorts s), events := events s @ [Reserve p]\<rparr>"

definition releasePort :: "jsnum \<Rightarrow> state \<Rightarrow> state" where
  "releasePort p s = s\<lparr>usedPorts := usedPorts s - {p}, events := events s @ [Release p]\<rparr>"

section \<open>The port allocator (podman.ts)\<close>

definition BASE_PORT :: int where
  "BASE_PORT = 8000"

text \<open>The ports read from the answer to \<open>podman ps\<close>; a rejected command gives none.\<close>

definition assignedPortsOf :: "error + string \<Rightarrow> jsnum list" where
  "assignedPortsOf r =
     (case r of
        Inl e \<Rightarrow> []
      | Inr stdout \<Rightarrow>
          filter (\<lambda>p. p \<noteq> NaN)
            (map parseInt
              (filter (\<lambda>p. p \<noteq> [] \<and> p \<noteq> ''<no value>'' \<and> p \<noteq> [])
                (split CHR 0x0A (trim stdout)))))"

definition getAllAssignedPorts :: "world \<Rightarrow> state \<Rightarrow> jsnum list \<times> state" where
  "getAllAssignedPorts w s =
     (let (r, s') = execAsync w s PodmanPsLabels in (assignedPortsOf r, s'))"

text \<open>The probe: an empty listing, or a rejected \<open>lsof\<close>, means no listener.\<close>

definition portAvailableOf :: "error + string \<Rightarrow> bool" where
  "portAvailableOf r = (case r of Inl e \<Rightarrow> True | Inr stdout \<Rightarrow> trim stdout = [])"

definition isPortAvailable :: "world \<Rightarrow> state \<Rightarrow> jsnum \<Rightarrow> bool \<times> state" where
  "isPortAvailable w s port =
     (let (r, s') = execAsync w s (Lsof port) in (portAvailableOf r, s'))"

text \<open>The scan loop of \<open>findAvailablePort\<close>, from \<open>port\<close> on.\<close>

function findAvailablePort_loop ::
  "world \<Rightarrow> jsnum set \<Rightarrow> int \<Rightarrow> int \<Rightarrow> state \<Rightarrow> (error + int) \<times> state" where
  "findAvailablePort_loop w allUsedPorts startPort port s =
     (if port < startPort + 1000 then
        (if Num port \<notin> allUsedPorts then
           (let (free, s') = isPortAvailable w s (Num port)
            in if free then (Inr port, usedPorts_add (Num port) s')
               else findAvailablePort_loop w allUsedPorts startPort (port + 1) s')
         else findAvailablePort_loop w allUsedPorts startPort (port + 1) s)
      else (Inl (Error ''No available ports found''), s))"
  by pat_completeness auto
termination
  by (relation "measure (\<lambda>(w, allUsedPorts, startPort, port, s). nat (startPort + 1000 - port))") auto

declare findAvailablePort_loop.simps [simp del]

definition findAvailablePort :: "world \<Rightarrow> state \<Rightarrow> int \<Rightarrow> (error + int) \<times> state" where
  "findAvailablePort w s startPort =
     (let (assignedPorts, s1) = getAllAssignedPorts w s;
          allUsedPorts = usedPorts s1 \<union> set assignedPorts
      in findAvailablePort_loop w allUsedPorts startPort startPort s1)"

section \<open>The container lifecycle (podman.ts)\<close>

text \<open>A string that JavaScript takes as true in a condition: present and not empty.\<close>

definition truthy :: "string option \<Rightarrow> string option" where
  "truthy v = (case v of None \<Rightarrow> None | Some x \<Rightarrow> if x = [] then None else Some x)"

definition inspectContainer :: "world \<Rightarrow> state \<Rightarrow> string \<Rightarrow> (error + containerInfo) \<times> state" where
  "inspectContainer w s containerId =
     (case execAsync w s (PodmanInspect containerId) of
        (Inl e, s') \<Rightarrow> (Inl e, s')
      | (Inr stdout, s') \<Rightarrow> (jsonInspect w stdout, s'))"

definition getPortFromContainer :: "containerInfo \<Rightarrow> state \<Rightarrow> (error + jsnum) \<times> state" where
  "getPortFromContainer containerInfo s =
     (case truthy (HostPort containerInfo) of
        Some hostPort \<Rightarrow>
          (let port = parseInt hostPort in (Inr port, usedPorts_add port s))
      | None \<Rightarrow>
          (case truthy (assignedPort containerInfo) of
             Some portLabel \<Rightarrow>
               (let port = parseInt portLabel in (Inr port, usedPorts_add port s))
           | None \<Rightarrow> (Inl (Error ''Could not determine container port''), s)))"

text \<open>The last two statements of \<open>startContainer\<close>: the runtime start, then the port.\<close>

definition podmanStart :: "world \<Rightarrow> state \<Rightarrow> string \<Rightarrow> jsnum \<Rightarrow> (error + jsnum) \<times> state" where
  "podmanStart w s containerId assignedPort' =
     (case execAsync w s (PodmanStart containerId) of
        (Inl e, s') \<Rightarrow> (Inl e, s')
      | (Inr stdout, s') \<Rightarrow> (Inr assignedPort', s'))"

definition portConflict :: "string \<Rightarrow> error" where
  "portConflict portLabel =
     Error (''Container port '' @ portLabel @ '' is no longer available. Please recreate the container.'')"

text \<open>The \<open>try\<close> block of \<open>startContainer\<close>.\<close>

definition startContainer_try :: "world \<Rightarrow> state \<Rightarrow> string \<Rightarrow> (error + jsnum) \<times> state" where
  "startContainer_try w s containerId =
     (case inspectContainer w s containerId of
        (Inl e, s1) \<Rightarrow> (Inl e, s1)
      | (Inr info, s1) \<Rightarrow>
          if Running info then getPortFromContainer info s1
          else
            (case truthy (assignedPort info) of
               Some portLabel \<Rightarrow>
                 (let (free, s2) = isPortAvailable w s1 (parseInt portLabel)
                  in if free then
                       podmanStart w (usedPorts_add (parseInt portLabel) s2) containerId (parseInt portLabel)
                     else
                       (case findAvailablePort w s2 BASE_PORT of
                          (Inl e, s3) \<Rightarrow> (Inl e, s3)
                        | (Inr port, s3) \<Rightarrow>
                            if parseInt portLabel \<noteq> Num port then (Inl (portConflict portLabel), s3)
                            else podmanStart w s3 containerId (Num port)))
             | None \<Rightarrow>
                 (case findAvailablePort w s1 BASE_PORT of
                    (Inl e, s2) \<Rightarrow> (Inl e, s2)
                  | (Inr port, s2) \<Rightarrow> podmanStart w s2 containerId (Num port))))"

definition startContainer :: "world \<Rightarrow> state \<Rightarrow> string \<Rightarrow> (error + jsnum) \<times> state" where
  "startContainer w s containerId =
     (case startContainer_try w s containerId of
        (Inl e, s') \<Rightarrow> (Inl (Error (''Failed to start container: '' @ message e)), s')
      | (Inr port, s') \<Rightarrow> (Inr port, s'))"

definition stopContainer_try :: "world \<Rightarrow> state \<Rightarrow> string \<Rightarrow> (error + unit) \<times> state" where
  "stopContainer_try w s containerId =
     (case inspectContainer w s containerId of
        (Inl e, s1) \<Rightarrow> (Inl e, s1)
      | (Inr containerInfo, s1) \<Rightarrow>
          (case getPortFromContainer containerInfo s1 of
             (Inl e, s2) \<Rightarrow> (Inl e, s2)
           | (Inr port, s2) \<Rightarrow>
               (case execAsync w (releasePort port s2) (PodmanStop containerId) of
                  (Inl e, s3) \<Rightarrow> (Inl e, s3)
                | (Inr stdout, s3) \<Rightarrow> (Inr (), s3))))"

definition stopContainer :: "world \<Rightarrow> state \<Rightarrow> string \<Rightarrow> (error + unit) \<times> state" where
  "stopContainer w s containerId =
     (case stopContainer_try w s containerId of
        (Inl e, s') \<Rightarrow> (Inl (Error (''Failed to stop container: '' @ message e)), s')
      | (Inr u, s') \<Rightarrow> (Inr u, s'))"

text \<open>
  The end of \<open>deleteContainer\<close>: the image goes only when its name includes
  \<open>dec-nextjs-\<close>, and a rejected \<open>podman rmi\<close> is caught (and logged).
\<close>

definition deleteImage :: "world \<Rightarrow> state \<Rightarrow> containerInfo \<Rightarrow> (error + unit) \<times> state" where
  "deleteImage w s containerInfo =
     (case truthy (Image containerInfo) of
        None \<Rightarrow> (Inr (), s)
      | Some imageName \<Rightarrow>
          if str_includes imageName ''dec-nextjs-'' then
            (case execAsync w s (PodmanRmi imageName) of
               (Inl imageError, s') \<Rightarrow> (Inr (), s')
             | (Inr stdout, s') \<Rightarrow> (Inr (), s'))
          else (Inr (), s))"

definition removeContainer :: "world \<Rightarrow> state \<Rightarrow> string \<Rightarrow> containerInfo \<Rightarrow> (error + unit) \<times> state" where
  "removeContainer w s containerId containerInfo =
     (case execAsync w s (PodmanRm containerId) of
        (Inl e, s') \<Rightarrow> (Inl e, s')
      | (Inr stdout, s') \<Rightarrow> deleteImage w s' containerInfo)"

definition deleteContainer_try :: "world \<Rightarrow> state \<Rightarrow> string \<Rightarrow> (error + unit) \<times> state" where
  "deleteContainer_try w s containerId =
     (case inspectContainer w s containerId of
        (Inl e, s1) \<Rightarrow> (Inl e, s1)
      | (Inr containerInfo, s1) \<Rightarrow>
          (case getPortFromContainer containerInfo s1 of
             (Inl e, s2) \<Rightarrow> (Inl e, s2)
           | (Inr port, s2) \<Rightarrow>
               (let s3 = releasePort port s2
                in if Running containerInfo then
                     (case execAsync w s3 (PodmanStop containerId) of
                        (Inl e, s4) \<Rightarrow> (Inl e, s4)
                      | (Inr stdout, s4) \<Rightarrow> removeContainer w s4 containerId containerInfo)
                   else removeContainer w s3 containerId containerInfo)))"

definition deleteContainer :: "world \<Rightarrow> state \<Rightarrow> string \<Rightarrow> (error + unit) \<times> state" where
  "deleteContainer w s containerId =
     (case deleteContainer_try w s containerId of
        (Inl e, s') \<Rightarrow> (Inl (Error (''Failed to delete container: '' @ message e)), s')
      | (Inr u, s') \<Rightarrow> (Inr u, s'))"

section \<open>The remote file system bridge (file.ts)\<close>

definition BASE_PATH :: string where
  "BASE_PATH = ''/app/my-nextjs-app''"

definition getAbsolutePath :: "string \<Rightarrow> string" where
  "getAbsolutePath filePath =
     (if prefix ''/'' filePath then filePath else BASE_PATH @ ''/'' @ filePath)"

text \<open>
  \<open>execInContainer\<close> hands one \<open>podman exec ... sh -c\<close> command line to the
  executor and returns its output; the command names the container.
\<close>

definition execInContainer :: "world \<Rightarrow> state \<Rightarrow> cmd \<Rightarrow> (error + string) \<times> state" where
  "execInContainer w s command = execAsync w s command"

datatype fileType = File | Directory

text \<open>
  A \<open>FileItem\<close> object on the heap. Its \<open>children\<close> array holds references
  (addresses) to other objects: the maps and the arrays of the traversal share the
  objects, and a child pushed to an object is seen by every holder of that object.
\<close>

record fileObj =
  name :: string
  path :: string
  ftype :: fileType
  children :: "nat list option"
  content :: "string option"

text \<open>The value the caller receives: the objects reachable from the returned array.\<close>

datatype FileItem =
  FileItem string string fileType "FileItem list option" "string option"

text \<open>
  Reading the heap as trees: the node of an object, with the nodes of the objects in
  its \<open>children\<close> array, in order. The first argument bounds the depth that is
  followed. No object is its own descendant (a child is pushed to the object found under
  a proper prefix of its path, or to the root, which is nobody's child), so a chain of
  children never holds an object twice, and the number of objects is depth enough.
\<close>

primrec resolveN :: "nat \<Rightarrow> fileObj list \<Rightarrow> nat \<Rightarrow> FileItem option" where
  "resolveN 0 h a = None"
| "resolveN (Suc n) h a =
     (if a < length h then
        Some (FileItem (name (h ! a)) (path (h ! a)) (ftype (h ! a))
                (map_option (List.map_filter (resolveN n h)) (children (h ! a)))
                (content (h ! a)))
      else None)"

definition resolve :: "fileObj list \<Rightarrow> nat \<Rightarrow> FileItem option" where
  "resolve h a = resolveN (length h) h a"

text \<open>\<open>root?.children || []\<close>, as the caller sees it.\<close>

definition rootChildren :: "fileObj list \<Rightarrow> (string \<times> nat) list \<Rightarrow> string \<Rightarrow> FileItem list" where
  "rootChildren h fileTree containerPath =
     (case map_of fileTree containerPath of
        None \<Rightarrow> []
      | Some root \<Rightarrow>
          (case children (h ! root) of
             None \<Rightarrow> []
           | Some cs \<Rightarrow> List.map_filter (resolve h) cs))"

definition getFileStat :: "world \<Rightarrow> state \<Rightarrow> string \<Rightarrow> string \<Rightarrow> bool \<times> state" where
  "getFileStat w s containerId filePath =
     (case execInContainer w s (Stat containerId filePath) of
        (Inl e, s') \<Rightarrow> (False, s')
      | (Inr output, s') \<Rightarrow> (str_includes (trim output) ''directory'', s'))"

text \<open>The lines of the \<open>find\<close> output that the traversal keeps.\<close>

definition listedPaths :: "string \<Rightarrow> string \<Rightarrow> string list" where
  "listedPaths containerPath output =
     filter (\<lambda>p. p \<noteq> [] \<and> p \<noteq> containerPath) (split CHR 0x0A (trim output))"

definition fileNameOf :: "string \<Rightarrow> string \<Rightarrow> string" where
  "fileNameOf containerPath filePath =
     last (split CHR ''/'' (replaceFirst (containerPath @ ''/'') filePath))"

text \<open>The key of the parent lookup: \<open>parentPath || containerPath\<close>.\<close>

definition parentKey :: "string \<Rightarrow> string \<Rightarrow> string" where
  "parentKey containerPath filePath =
     (let parentPath = substring0 filePath (lastIndexOf CHR ''/'' filePath)
      in if parentPath = [] then containerPath else parentPath)"

definition newItem :: "string \<Rightarrow> string \<Rightarrow> bool \<Rightarrow> fileObj" where
  "newItem containerPath filePath isDirectory =
     \<lparr> name = fileNameOf containerPath filePath, path = filePath,
       ftype = (if isDirectory then Directory else File),
       children = (if isDirectory then Some [] else None),
       content = None \<rparr>"

definition rootItem :: "string \<Rightarrow> fileObj" where
  "rootItem containerPath =
     \<lparr> name = ''root'', path = containerPath, ftype = Directory, children = Some [],
       content = None \<rparr>"

text \<open>
  \<open>parent = fileTree.get(...); if (parent && parent.children) parent.children.push(item)\<close>
  for the object at address \<open>a\<close>. An empty array counts as present.
\<close>

definition attach :: "string \<Rightarrow> (string \<times> nat) list \<Rightarrow> fileObj list \<Rightarrow> nat \<Rightarrow> fileObj list" where
  "attach containerPath fileTree h a =
     (case map_of fileTree (parentKey containerPath (path (h ! a))) of
        None \<Rightarrow> h
      | Some parent \<Rightarrow>
          (case children (h ! parent) of
             None \<Rightarrow> h
           | Some cs \<Rightarrow> h[parent := (h ! parent)\<lparr>children := Some (cs @ [a])\<rparr>]))"

text \<open>One turn of the loop of \<open>getFileTree\<close>; the new object gets the next address.\<close>

definition getFileTree_step ::
  "world \<Rightarrow> string \<Rightarrow> string \<Rightarrow> string
     \<Rightarrow> state \<times> fileObj list \<times> (string \<times> nat) list
     \<Rightarrow> state \<times> fileObj list \<times> (string \<times> nat) list" where
  "getFileTree_step w containerId containerPath filePath acc =
     (case acc of (s, h, fileTree) \<Rightarrow>
        (let (isDirectory, s') = getFileStat w s containerId filePath;
             h1 = h @ [newItem containerPath filePath isDirectory];
             fileTree1 = AList.update filePath (length h) fileTree
         in (s', attach containerPath fileTree1 h1 (length h), fileTree1)))"

definition getFileTree :: "world \<Rightarrow> state \<Rightarrow> string \<Rightarrow> string \<Rightarrow> (error + FileItem list) \<times> state" where
  "getFileTree w s containerId containerPath =
     (case execInContainer w s (FindTree containerId containerPath) of
        (Inl e, s1) \<Rightarrow> (Inl e, s1)
      | (Inr output, s1) \<Rightarrow>
          (case fold (getFileTree_step w containerId containerPath)
                  (listedPaths containerPath output)
                  (s1, [rootItem containerPath], [(containerPath, 0)]) of
             (s2, h, fileTree) \<Rightarrow> (Inr (rootChildren h fileTree containerPath), s2)))"

text \<open>\<open>readFile\<close> removes a leading byte order mark (U+FEFF): three bytes in UTF-8.\<close>

definition stripBOM :: "string \<Rightarrow> string" where
  "stripBOM output =
     (if prefix [CHR 0xEF, CHR 0xBB, CHR 0xBF] output then drop 3 output else output)"

definition readFile :: "world \<Rightarrow> state \<Rightarrow> string \<Rightarrow> string \<Rightarrow> (error + string) \<times> state" where
  "readFile w s containerId filePath =
     (case execInContainer w s (Cat containerId filePath) of
        (Inl e, s') \<Rightarrow> (Inl e, s')
      | (Inr output, s') \<Rightarrow> (Inr (stripBOM output), s'))"

text \<open>The function mapped over a batch: a failed read becomes a placeholder.\<close>

definition readOne :: "world \<Rightarrow> string \<Rightarrow> string \<Rightarrow> state \<Rightarrow> (string \<times> string) \<times> state" where
  "readOne w containerId filePath s =
     (case readFile w s containerId filePath of
        (Inr content', s') \<Rightarrow> ((filePath, content'), s')
      | (Inl e, s') \<Rightarrow> ((filePath, ''Error reading file: '' @ message e), s'))"

text \<open>
  \<open>await Promise.all(batch.map(...))\<close>: the reads of a batch are started in the order
  of the batch, and the results come back in that order.
\<close>

fun readBatch :: "world \<Rightarrow> string \<Rightarrow> string list \<Rightarrow> state \<Rightarrow> (string \<times> string) list \<times> state" where
  "readBatch w containerId [] s = ([], s)"
| "readBatch w containerId (filePath # rest) s =
     (let (r, s1) = readOne w containerId filePath s;
          (rs, s2) = readBatch w containerId rest s1
      in (r # rs, s2))"

definition batchSize :: nat where
  "batchSize = 50"

text \<open>\<open>results.set(filePath, content)\<close> for each pair, on a \<open>Map\<close> kept in key order.\<close>

definition setAll :: "(string \<times> string) list \<Rightarrow> (string \<times> string) list \<Rightarrow> (string \<times> string) list" where
  "setAll batchResults results = fold (\<lambda>(filePath, c). AList.update filePath c) batchResults results"

function readFilesBatch_loop ::
  "world \<Rightarrow> string \<Rightarrow> string list \<Rightarrow> nat \<Rightarrow> (string \<times> string) list \<Rightarrow> state
     \<Rightarrow> (string \<times> string) list \<times> state" where
  "readFilesBatch_loop w containerId filePaths i results s =
     (if i < length filePaths then
        (let batch = take batchSize (drop i filePaths);
             (batchResults, s') = readBatch w containerId batch s
         in readFilesBatch_loop w containerId filePaths (i + batchSize)
              (setAll batchResults results) s')
      else (results, s))"
  by pat_completeness auto
termination
  by (relation "measure (\<lambda>(w, containerId, filePaths, i, results, s). length filePaths - i)")
     (auto simp: batchSize_def)

declare readFilesBatch_loop.simps [simp del]

definition readFilesBatch :: "world \<Rightarrow> state \<Rightarrow> string \<Rightarrow> string list \<Rightarrow> (string \<times> string) list \<times> state" where
  "readFilesBatch w s containerId filePaths = readFilesBatch_loop w containerId filePaths 0 [] s"

text \<open>
  The first loop of \<open>getFileContentTree\<close>: every path gets its object, which is put in
  \<open>pathToItemMap\<close> and \<open>fileTree\<close>; the files are collected in \<open>filesToRead\<close>.
\<close>

record contentAcc =
  st :: state
  objs :: "fileObj list"
  fileTree :: "(string \<times> nat) list"
  pathToItemMap :: "(string \<times> nat) list"
  filesToRead :: "string list"

definition getFileContentTree_step :: "world \<Rightarrow> string \<Rightarrow> string \<Rightarrow> string \<Rightarrow> contentAcc \<Rightarrow> contentAcc" where
  "getFileContentTree_step w containerId containerPath filePath acc =
     (let (isDirectory, s') = getFileStat w (st acc) containerId filePath
      in \<lparr> st = s',
           objs = objs acc @ [newItem containerPath filePath isDirectory],
           fileTree = AList.update filePath (length (objs acc)) (fileTree acc),
           pathToItemMap = AList.update filePath (length (objs acc)) (pathToItemMap acc),
           filesToRead = (if isDirectory then filesToRead acc else filesToRead acc @ [filePath]) \<rparr>)"

text \<open>The second loop: \<open>fileItem.content = content\<close> for every entry of the results.\<close>

definition setContent :: "(string \<times> nat) list \<Rightarrow> string \<times> string \<Rightarrow> fileObj list \<Rightarrow> fileObj list" where
  "setContent pathToItemMap' entry h =
     (case map_of pathToItemMap' (fst entry) of
        None \<Rightarrow> h
      | Some a \<Rightarrow> h[a := (h ! a)\<lparr>content := Some (snd entry)\<rparr>])"

text \<open>
  The three loops of \<open>getFileContentTree\<close>, on the listed paths: the heap and the
  maps as they are at the \<open>return\<close> statement.
\<close>

definition getFileContentTree_loops ::
  "world \<Rightarrow> state \<Rightarrow> string \<Rightarrow> string \<Rightarrow> string list \<Rightarrow> (fileObj list \<times> contentAcc) \<times> state" where
  "getFileContentTree_loops w s1 containerId containerPath paths =
     (let acc = fold (getFileContentTree_step w containerId containerPath) paths
                  \<lparr> st = s1, objs = [rootItem containerPath],
                    fileTree = [(containerPath, 0)], pathToItemMap = [], filesToRead = [] \<rparr>;
          (fileContents, s2) = readFilesBatch w (st acc) containerId (filesToRead acc);
          h1 = fold (setContent (pathToItemMap acc)) fileContents (objs acc);
          h2 = fold (\<lambda>a h. attach containerPath (fileTree acc) h a)
                 (map snd (pathToItemMap acc)) h1
      in ((h2, acc), s2))"

definition getFileContentTree ::
  "world \<Rightarrow> state \<Rightarrow> string \<Rightarrow> string \<Rightarrow> (error + FileItem list) \<times> state" where
  "getFileContentTree w s containerId containerPath =
     (case execInContainer w s (FindContentTree containerId containerPath) of
        (Inl e, s1) \<Rightarrow> (Inl e, s1)
      | (Inr output, s1) \<Rightarrow>
          (case getFileContentTree_loops w s1 containerId containerPath
                  (listedPaths containerPath output) of
             ((h2, acc), s2) \<Rightarrow> (Inr (rootChildren h2 (fileTree acc) containerPath), s2)))"

text \<open>
  \<open>writeFile\<close>. The name of the temporary file ends in a fresh \<open>uuidv4()\<close>, which
  the caller of the model supplies.
\<close>

text \<open>The inner \<open>try\<close>/\<open>catch\<close>: the copy, and on failure \<open>mkdir -p\<close> and one more copy.\<close>

definition copyIntoContainer :: "world \<Rightarrow> state \<Rightarrow> string \<Rightarrow> string \<Rightarrow> string \<Rightarrow> (error + unit) \<times> state" where
  "copyIntoContainer w s tempFile containerId absolutePath =
     (case execAsync w s (PodmanCp tempFile containerId absolutePath) of
        (Inr out, s1) \<Rightarrow> (Inr (), s1)
      | (Inl copyError, s1) \<Rightarrow>
          (let dirPath = substring0 absolutePath (lastIndexOf CHR ''/'' absolutePath)
           in case execAsync w s1 (Mkdir containerId dirPath) of
                (Inl e, s2) \<Rightarrow> (Inl e, s2)
              | (Inr out, s2) \<Rightarrow>
                  (case execAsync w s2 (PodmanCp tempFile containerId absolutePath) of
                     (Inl e, s3) \<Rightarrow> (Inl e, s3)
                   | (Inr out', s3) \<Rightarrow> (Inr (), s3))))"

definition writeFile_try :: "world \<Rightarrow> state \<Rightarrow> string \<Rightarrow> string \<Rightarrow> string \<Rightarrow> string \<Rightarrow> (error + unit) \<times> state" where
  "writeFile_try w s tempFile containerId filePath content' =
     (case execAsync w s (FsWriteFile tempFile content') of
        (Inl e, s1) \<Rightarrow> (Inl e, s1)
      | (Inr out, s1) \<Rightarrow>
          (let absolutePath = getAbsolutePath filePath
           in case copyIntoContainer w s1 tempFile containerId absolutePath of
                (Inl e, s2) \<Rightarrow> (Inl e, s2)
              | (Inr u, s2) \<Rightarrow>
                  (let (verifyResult, s3) = execAsync w s2 (Head5 containerId absolutePath)
                   in case execAsync w s3 (FsUnlink tempFile) of
                        (Inl e, s4) \<Rightarrow> (Inl e, s4)
                      | (Inr out', s4) \<Rightarrow> (Inr (), s4))))"

definition writeFile :: "world \<Rightarrow> state \<Rightarrow> string \<Rightarrow> string \<Rightarrow> string \<Rightarrow> string \<Rightarrow> (error + unit) \<times> state" where
  "writeFile w s uuid containerId filePath content' =
     (let tempFile = ''/tmp/file-'' @ uuid
      in case writeFile_try w s tempFile containerId filePath content' of
           (Inr u, s') \<Rightarrow> (Inr u, s')
         | (Inl e, s') \<Rightarrow>
             (let (unlinkResult, s'') = execAsync w s' (FsUnlink tempFile) in (Inl e, s'')))"

section \<open>Interleaved calls of \<open>findAvailablePort\<close>\<close>

text \<open>
  Node.js runs one call at a time, from one \<open>await\<close> of the executor to the next: a
  call that waits for a command gives way to the other calls, and goes on when its
  answer arrives. A suspended call of \<open>findAvailablePort\<close> is either waiting for
  \<open>podman ps\<close> (in \<open>getAllAssignedPorts\<close>) or for \<open>lsof\<close> (in \<open>isPortAvailable\<close>,
  with the local \<open>allUsedPorts\<close> and \<open>port\<close> of the loop). The answer the world
  gives is kept with the suspended call.
\<close>

datatype task =
    AwaitPs int "error + string"
  | AwaitLsof "jsnum set" int int "error + string"
  | Returned int
  | Thrown error

text \<open>The loop from \<open>port\<close> on, up to its next \<open>await\<close>.\<close>

function advance :: "world \<Rightarrow> jsnum set \<Rightarrow> int \<Rightarrow> int \<Rightarrow> state \<Rightarrow> task \<times> state" where
  "advance w allUsedPorts startPort port s =
     (if port < startPort + 1000 then
        (if Num port \<notin> allUsedPorts then
           (let (r, s') = execAsync w s (Lsof (Num port))
            in (AwaitLsof allUsedPorts startPort port r, s'))
         else advance w allUsedPorts startPort (port + 1) s)
      else (Thrown (Error ''No available ports found''), s))"
  by pat_completeness auto
termination
  by (relation "measure (\<lambda>(w, allUsedPorts, startPort, port, s). nat (startPort + 1000 - port))") auto

declare advance.simps [simp del]

text \<open>The call itself: it runs up to the \<open>await\<close> in \<open>getAllAssignedPorts\<close>.\<close>

definition call :: "world \<Rightarrow> int \<Rightarrow> state \<Rightarrow> task \<times> state" where
  "call w startPort s =
     (let (r, s') = execAsync w s PodmanPsLabels in (AwaitPs startPort r, s'))"

text \<open>A suspended call goes on with its answer, up to its next \<open>await\<close> or its end.\<close>

fun resume :: "world \<Rightarrow> task \<Rightarrow> state \<Rightarrow> task \<times> state" where
  "resume w (AwaitPs startPort r) s =
     advance w (usedPorts s \<union> set (assignedPortsOf r)) startPort startPort s"
| "resume w (AwaitLsof allUsedPorts startPort port r) s =
     (if portAvailableOf r then (Returned port, usedPorts_add (Num port) s)
      else advance w allUsedPorts startPort (port + 1) s)"
| "resume w (Returned port) s = (Returned port, s)"
| "resume w (Thrown e) s = (Thrown e, s)"

text \<open>Several calls in flight: the calls are made one after the other, and then the
  answers arrive in the order of a schedule, which names the call that goes on.\<close>

fun callAll :: "world \<Rightarrow> int list \<Rightarrow> state \<Rightarrow> task list \<times> state" where
  "callAll w [] s = ([], s)"
| "callAll w (startPort # rest) s =
     (let (t, s1) = call w startPort s; (ts, s2) = callAll w rest s1 in (t # ts, s2))"

definition resumeTask :: "world \<Rightarrow> nat \<Rightarrow> task list \<times> state \<Rightarrow> task list \<times> state" where
  "resumeTask w i cfg =
     (case cfg of (ts, s) \<Rightarrow>
        if i < length ts then (let (t, s') = resume w (ts ! i) s in (ts[i := t], s'))
        else (ts, s))"

definition runSchedule :: "world \<Rightarrow> nat list \<Rightarrow> task list \<times> state \<Rightarrow> task list \<times> state" where
  "runSchedule w schedule cfg = fold (resumeTask w) schedule cfg"

text \<open>The outcome of a finished call, as \<open>findAvailablePort\<close> gives it.\<close>

definition finished :: "(error + int) \<times> state \<Rightarrow> task \<times> state" where
  "finished rs = (case rs of (Inr port, s) \<Rightarrow> (Returned port, s) | (Inl e, s) \<Rightarrow> (Thrown e, s))"

definition resume1 :: "world \<Rightarrow> task \<times> state \<Rightarrow> task \<times> state" where
  "resume1 w ts = (case ts of (t, s) \<Rightarrow> resume w t s)"

section \<open>Reading a trace\<close>

text \<open>A command that the executor completed, as opposed to one it rejected.\<close>

definition resolved :: "error + string \<Rightarrow> bool" where
  "resolved r = (case r of Inl e \<Rightarrow> False | Inr out \<Rightarrow> True)"

section \<open>A concrete host\<close>

text \<open>
  A host on which the theorems below are exercised. Three containers carry the labels
  8000, 8001 and 8002: \<open>c_run\<close> is running on 8000, \<open>c_stop\<close> is stopped and its
  port 8001 has been taken by another process, \<open>c_idle\<close> is stopped and its port 8002
  is free. \<open>podman inspect\<close> prints the name of the container in place of its JSON.
  Removing an image fails. The first copy into a container fails until the directory
  has been made, the verification read fails, and \<open>cat\<close> fails in the container
  \<open>c_cat\<close>, \<open>stat\<close> of \<open>/root/c\<close> in the container \<open>c_stat\<close>.
\<close>

definition demoListing :: string where
  "demoListing = ''/root/a'' @ [CHR 0x0A] @ ''/root/a/b.txt'' @ [CHR 0x0A] @ ''/root/c'' @ [CHR 0x0A]"

fun isMkdir :: "event \<Rightarrow> bool" where
  "isMkdir (Exec (Mkdir c d)) = True"
| "isMkdir e = False"

fun demoExec :: "event list \<Rightarrow> cmd \<Rightarrow> error + string" where
  "demoExec evs PodmanPsLabels = Inr (''8000'' @ [CHR 0x0A] @ ''8001'' @ [CHR 0x0A] @ ''8002'' @ [CHR 0x0A])"
| "demoExec evs (Lsof p) =
     (if p = Num 8000 \<or> p = Num 8001 then Inr ''node 4242 TCP (LISTEN)''
      else Inl (Error ''Command failed: lsof''))"
| "demoExec evs (PodmanInspect c) = Inr c"
| "demoExec evs (PodmanRmi i) = Inl (Error ''image is in use'')"
| "demoExec evs (FindTree c p) = Inr demoListing"
| "demoExec evs (FindContentTree c p) = Inr demoListing"
| "demoExec evs (Stat c p) =
     (if p = ''/root/c'' \<and> c = ''c_stat'' then Inl (Error ''Command failed: stat'')
      else if p = ''/root/a/b.txt'' then Inr (''regular file'' @ [CHR 0x0A])
      else Inr (''directory'' @ [CHR 0x0A]))"
| "demoExec evs (Cat c p) =
     (if c = ''c_cat'' then Inl (Error ''Command failed: cat'') else Inr ''hello'')"
| "demoExec evs (PodmanCp t c p) =
     (if list_ex isMkdir evs then Inr [] else Inl (Error ''Command failed: podman cp''))"
| "demoExec evs (Head5 c p) = Inl (Error ''Command failed: head'')"
| "demoExec evs c = Inr []"

definition demoInspect :: "string \<Rightarrow> error + containerInfo" where
  "demoInspect out =
     (if out = ''c_run'' then
        Inr \<lparr> Running = True, HostPort = Some ''8000'', assignedPort = Some ''8000'',
              Image = Some ''dec-nextjs-abc'' \<rparr>
      else if out = ''c_stop'' then
        Inr \<lparr> Running = False, HostPort = Some ''8001'', assignedPort = Some ''8001'',
              Image = Some ''dec-nextjs-def'' \<rparr>
      else if out = ''c_idle'' then
        Inr \<lparr> Running = False, HostPort = Some ''8002'', assignedPort = Some ''8002'',
              Image = Some ''dec-nextjs-ghi'' \<rparr>
      else Inl (Error ''Unexpected end of JSON input''))"

definition demoWorld :: world where
  "demoWorld = \<lparr> exec = demoExec, jsonInspect = demoInspect \<rparr>"

text \<open>A fresh process: nothing reserved, nothing done yet.\<close>

definition freshState :: state where
  "freshState = \<lparr> usedPorts = {}, events = [] \<rparr>"

text \<open>A host with no container of the project and no listener at all.\<close>

fun quietExec :: "event list \<Rightarrow> cmd \<Rightarrow> error + string" where
  "quietExec evs (Lsof p) = Inl (Error ''Command failed: lsof'')"
| "quietExec evs c = Inr []"

definition quietWorld :: world where
  "quietWorld = \<lparr> exec = quietExec, jsonInspect = demoInspect \<rparr>"

section \<open>An invariant of the content traversal\<close>

text \<open>
  What the first loop of \<open>getFileContentTree\<close> keeps true: \<open>pathToItemMap\<close> maps a
  path to an object allocated for that path, each path queued for reading is mapped to
  an object of type \<open>file\<close> without \<open>children\<close>, and no path is queued twice.
\<close>

definition contentInv :: "string \<Rightarrow> contentAcc \<Rightarrow> bool" where
  "contentInv containerPath acc \<longleftrightarrow>
     (\<forall>p a. map_of (pathToItemMap acc) p = Some a \<longrightarrow>
        a < length (objs acc) \<and> path (objs acc ! a) = p
        \<and> name (objs acc ! a) = fileNameOf containerPath p)
   \<and> (\<forall>p \<in> set (filesToRead acc). \<exists>a. map_of (pathToItemMap acc) p = Some a
        \<and> ftype (objs acc ! a) = File \<and> children (objs acc ! a) = None)
   \<and> distinct (filesToRead acc)
   \<and> set (filesToRead acc) \<subseteq> fst ` set (pathToItemMap acc)"

section \<open>An invariant of the structure traversal\<close>

text \<open>
  In the heap of \<open>getFileTree\<close> every child was allocated after the object that
  holds it, and the map \<open>fileTree\<close> holds addresses of allocated objects only.
\<close>

definition forward :: "fileObj list \<Rightarrow> bool" where
  "forward h \<longleftrightarrow>
     (\<forall>a cs c. a < length h \<and> children (h ! a) = Some cs \<and> c \<in> set cs \<longrightarrow> a < c \<and> c < length h)"

definition treeInv :: "fileObj list \<Rightarrow> (string \<times> nat) list \<Rightarrow> bool" where
  "treeInv h ft \<longleftrightarrow> forward h \<and> (\<forall>k a. map_of ft k = Some a \<longrightarrow> a < length h)"

section \<open>A node in its parent's array\<close>


section \<open>A host whose containers answer no \<open>stat\<close>\<close>






section \<open>The nodes of a returned tree\<close>

section \<open>Evaluation rules for concrete runs\<close>

lemmas parse_simps = parseInt_def parseUnsigned_def parseDigits_def isDigit_def digitVal_def
  digitsValue_def isWhiteSpace_def trim_def assignedPortsOf_def portAvailableOf_def

lemmas podman_simps = findAvailablePort_def getAllAssignedPorts_def execAsync_def
  findAvailablePort_loop.simps isPortAvailable_def usedPorts_add_def releasePort_def
  inspectContainer_def getPortFromContainer_def truthy_def podmanStart_def startContainer_try_def
  startContainer_def deleteContainer_def deleteContainer_try_def removeContainer_def deleteImage_def
  BASE_PORT_def portConflict_def Let_def

lemmas demo_simps = demoWorld_def freshState_def demoInspect_def quietWorld_def

section \<open>Properties of the port allocator\<close>

lemma isPortAvailable_state:
  "isPortAvailable w s p = (b, s') \<Longrightarrow>
     usedPorts s' = usedPorts s \<and> events s' = events s @ [Exec (Lsof p)]
     \<and> b = portAvailableOf (exec w (events s) (Lsof p))"
  by (auto simp: isPortAvailable_def execAsync_def split: prod.splits)

lemma loop_trace:
  "findAvailablePort_loop w A sp port s = (r, s') \<Longrightarrow>
   (case r of
      Inr p \<Rightarrow> port \<le> p \<and> p < sp + 1000 \<and> Num p \<notin> A
         \<and> usedPorts s' = insert (Num p) (usedPorts s)
         \<and> events s' = events s @ map (\<lambda>q. Exec (Lsof (Num q))) (filter (\<lambda>q. Num q \<notin> A) [port..p]) @ [Reserve (Num p)]
         \<and> portAvailableOf (exec w (events s @ map (\<lambda>q. Exec (Lsof (Num q))) (filter (\<lambda>q. Num q \<notin> A) [port..p - 1])) (Lsof (Num p)))
    | Inl e \<Rightarrow> e = Error ''No available ports found'' \<and> usedPorts s' = usedPorts s
         \<and> events s' = events s @ map (\<lambda>q. Exec (Lsof (Num q))) (filter (\<lambda>q. Num q \<notin> A) [port..sp + 999]))"
proof (induction w A sp port s arbitrary: r s' rule: findAvailablePort_loop.induct)
  case (1 w A sp port s)
  show ?case
  proof (cases "port < sp + 1000")
    case False
    with "1.prems" show ?thesis
      by (auto simp: findAvailablePort_loop.simps)
  next
    case inwin: True
    show ?thesis
    proof (cases "Num port \<in> A")
      case True
      with inwin "1.prems" have run: "findAvailablePort_loop w A sp (port + 1) s = (r, s')"
        by (simp add: findAvailablePort_loop.simps)
      have ih: "case r of
          Inr p \<Rightarrow> port + 1 \<le> p \<and> p < sp + 1000 \<and> Num p \<notin> A
            \<and> usedPorts s' = insert (Num p) (usedPorts s)
            \<and> events s' = events s @ map (\<lambda>q. Exec (Lsof (Num q))) (filter (\<lambda>q. Num q \<notin> A) [port + 1..p]) @ [Reserve (Num p)]
            \<and> portAvailableOf (exec w (events s @ map (\<lambda>q. Exec (Lsof (Num q))) (filter (\<lambda>q. Num q \<notin> A) [port + 1..p - 1])) (Lsof (Num p)))
        | Inl e \<Rightarrow> e = Error ''No available ports found'' \<and> usedPorts s' = usedPorts s
            \<and> events s' = events s @ map (\<lambda>q. Exec (Lsof (Num q))) (filter (\<lambda>q. Num q \<notin> A) [port + 1..sp + 999])"
        using "1.IH"(2) [OF inwin _ run] True by simp
      show ?thesis
      proof (cases r)
        case (Inl e)
        with ih True inwin show ?thesis
          by (simp add: upto_rec1 [of port "sp + 999"])
      next
        case (Inr p)
        with ih True inwin show ?thesis
          by (simp add: upto_rec1 [of port p] upto_rec1 [of port "p - 1"])
      qed
    next
      case notin: False
      obtain free s1 where probe: "isPortAvailable w s (Num port) = (free, s1)"
        by (cases "isPortAvailable w s (Num port)")
      note st = isPortAvailable_state [OF probe]
      show ?thesis
      proof (cases free)
        case True
        with inwin notin probe "1.prems" have "r = Inr port" "s' = usedPorts_add (Num port) s1"
          by (simp_all add: findAvailablePort_loop.simps)
        with st notin inwin True show ?thesis
          by (simp add: usedPorts_add_def)
      next
        case False
        with inwin notin probe "1.prems" have run: "findAvailablePort_loop w A sp (port + 1) s1 = (r, s')"
          by (simp add: findAvailablePort_loop.simps)
        have ih: "case r of
            Inr p \<Rightarrow> port + 1 \<le> p \<and> p < sp + 1000 \<and> Num p \<notin> A
              \<and> usedPorts s' = insert (Num p) (usedPorts s1)
              \<and> events s' = events s1 @ map (\<lambda>q. Exec (Lsof (Num q))) (filter (\<lambda>q. Num q \<notin> A) [port + 1..p]) @ [Reserve (Num p)]
              \<and> portAvailableOf (exec w (events s1 @ map (\<lambda>q. Exec (Lsof (Num q))) (filter (\<lambda>q. Num q \<notin> A) [port + 1..p - 1])) (Lsof (Num p)))
          | Inl e \<Rightarrow> e = Error ''No available ports found'' \<and> usedPorts s' = usedPorts s1
              \<and> events s' = events s1 @ map (\<lambda>q. Exec (Lsof (Num q))) (filter (\<lambda>q. Num q \<notin> A) [port + 1..sp + 999])"
          using "1.IH"(1) [OF inwin notin probe [symmetric] _ _ run] False by simp
        show ?thesis
        proof (cases r)
          case (Inl e)
          with ih notin inwin st show ?thesis
            by (simp add: upto_rec1 [of port "sp + 999"])
        next
          case (Inr p)
          with ih notin inwin st show ?thesis
            by (simp add: upto_rec1 [of port p] upto_rec1 [of port "p - 1"])
        qed
      qed
    qed
  qed
qed

lemma findAvailablePort_trace:
  assumes "findAvailablePort w s startPort = (r, s')"
  shows "case r of
      Inr p \<Rightarrow> startPort \<le> p \<and> p < startPort + 1000
         \<and> Num p \<notin> usedPorts s \<and> Num p \<notin> set (assignedPortsOf (exec w (events s) PodmanPsLabels))
         \<and> usedPorts s' = insert (Num p) (usedPorts s)
         \<and> events s' = events s @ [Exec PodmanPsLabels]
              @ map (\<lambda>q. Exec (Lsof (Num q)))
                  (filter (\<lambda>q. Num q \<notin> usedPorts s \<union> set (assignedPortsOf (exec w (events s) PodmanPsLabels))) [startPort..p])
              @ [Reserve (Num p)]
         \<and> portAvailableOf (exec w (events s @ [Exec PodmanPsLabels]
              @ map (\<lambda>q. Exec (Lsof (Num q)))
                  (filter (\<lambda>q. Num q \<notin> usedPorts s \<union> set (assignedPortsOf (exec w (events s) PodmanPsLabels))) [startPort..p - 1]))
              (Lsof (Num p)))
    | Inl e \<Rightarrow> e = Error ''No available ports found'' \<and> usedPorts s' = usedPorts s
         \<and> events s' = events s @ [Exec PodmanPsLabels]
              @ map (\<lambda>q. Exec (Lsof (Num q)))
                  (filter (\<lambda>q. Num q \<notin> usedPorts s \<union> set (assignedPortsOf (exec w (events s) PodmanPsLabels))) [startPort..startPort + 999])"
proof -
  define s1 where "s1 = s\<lparr>events := events s @ [Exec PodmanPsLabels]\<rparr>"
  define A where "A = usedPorts s \<union> set (assignedPortsOf (exec w (events s) PodmanPsLabels))"
  have run: "findAvailablePort_loop w A startPort startPort s1 = (r, s')"
    using assms
    by (simp add: findAvailablePort_def getAllAssignedPorts_def execAsync_def s1_def A_def)
  have s1: "usedPorts s1 = usedPorts s" "events s1 = events s @ [Exec PodmanPsLabels]"
    by (simp_all add: s1_def)
  show ?thesis
    using loop_trace [OF run] s1
    by (cases r) (simp_all add: A_def)
qed

text \<open>
  What a call of \<open>findAvailablePort\<close> does when it runs on its own, with no other
  call of the service going on while it waits for the executor: it asks
  \<open>podman ps\<close> once and then probes, in ascending order, exactly the ports of the
  window from \<open>startPort\<close> that are neither in \<open>usedPorts\<close> nor among the labelled
  ports, and no port beyond \<open>startPort + 999\<close>. It returns the first probed port
  that has no listener, and \<open>usedPorts.add\<close> is the last thing it does. When every
  port of the window is in one of the sets or has a listener, it throws
  \<open>No available ports found\<close> and leaves \<open>usedPorts\<close> as it was. The sets are
  the ones the call read before its first probe; the interleaved calls below show that
  this is not the set at the moment of the decision.
\<close>

theorem findAvailablePort_contract:
  assumes run: "findAvailablePort w s startPort = (r, s')"
  shows "let assigned = assignedPortsOf (exec w (events s) PodmanPsLabels);
             probes = (\<lambda>hi. map (\<lambda>q. Exec (Lsof (Num q)))
                         (filter (\<lambda>q. Num q \<notin> usedPorts s \<union> set assigned) [startPort..hi]))
         in (case r of
               Inr p \<Rightarrow>
                 startPort \<le> p \<and> p \<le> startPort + 999
                 \<and> Num p \<notin> usedPorts s \<and> Num p \<notin> set assigned
                 \<and> portAvailableOf
                     (exec w (events s @ [Exec PodmanPsLabels] @ probes (p - 1)) (Lsof (Num p)))
                 \<and> usedPorts s' = insert (Num p) (usedPorts s)
                 \<and> events s' = events s @ [Exec PodmanPsLabels] @ probes p @ [Reserve (Num p)]
             | Inl e \<Rightarrow>
                 e = Error ''No available ports found''
                 \<and> usedPorts s' = usedPorts s
                 \<and> events s' = events s @ [Exec PodmanPsLabels] @ probes (startPort + 999))"
  using findAvailablePort_trace [OF run]
  by (cases r) (simp_all add: Let_def)

theorem findAvailablePort_contract_witness:
  "findAvailablePort demoWorld freshState 8000 =
     (Inr 8003, \<lparr> usedPorts = {Num 8003},
        events = [Exec PodmanPsLabels, Exec (Lsof (Num 8003)), Reserve (Num 8003)] \<rparr>)
   \<and> assignedPortsOf (exec demoWorld (events freshState) PodmanPsLabels) = [Num 8000, Num 8001, Num 8002]
   \<and> Num 8003 \<notin> usedPorts freshState
   \<and> portAvailableOf (exec demoWorld [Exec PodmanPsLabels] (Lsof (Num 8003)))"
proof -
  have run: "findAvailablePort demoWorld freshState 8000 =
     (Inr 8003, \<lparr> usedPorts = {Num 8003},
        events = [Exec PodmanPsLabels, Exec (Lsof (Num 8003)), Reserve (Num 8003)] \<rparr>)"
    by (simp add: podman_simps parse_simps demo_simps)
  have labels: "assignedPortsOf (exec demoWorld (events freshState) PodmanPsLabels)
      = [Num 8000, Num 8001, Num 8002]"
    by (simp add: parse_simps demo_simps)
  have window: "filter (\<lambda>q. Num q \<notin> usedPorts freshState \<union> set [Num 8000, Num 8001, Num 8002])
      [8000..8002] = []"
    by (simp add: freshState_def upto_rec1)
  from findAvailablePort_contract [OF run] run labels window show ?thesis
    by (simp add: Let_def freshState_def)
qed

section \<open>Properties of the container lifecycle\<close>

lemma inspectContainer_state:
  "inspectContainer w s containerId = (r, s1) \<Longrightarrow>
     s1 = s\<lparr>events := events s @ [Exec (PodmanInspect containerId)]\<rparr>"
  by (auto simp: inspectContainer_def execAsync_def split: sum.splits)

lemma getPortFromContainer_cases:
  "getPortFromContainer info s =
     (case truthy (HostPort info) of
        Some hp \<Rightarrow> (Inr (parseInt hp), usedPorts_add (parseInt hp) s)
      | None \<Rightarrow> (case truthy (assignedPort info) of
          Some lbl \<Rightarrow> (Inr (parseInt lbl), usedPorts_add (parseInt lbl) s)
        | None \<Rightarrow> (Inl (Error ''Could not determine container port''), s)))"
  by (simp add: getPortFromContainer_def Let_def split: option.splits)

lemma getPortFromContainer_state:
  "getPortFromContainer info s = (Inr port, s2) \<Longrightarrow> s2 = usedPorts_add port s"
  "getPortFromContainer info s = (Inl e, s2) \<Longrightarrow> s2 = s \<and> e = Error ''Could not determine container port''"
  by (auto simp: getPortFromContainer_cases split: option.splits)

lemma podmanStart_cases:
  "podmanStart w s containerId p =
     ((case exec w (events s) (PodmanStart containerId) of Inl e \<Rightarrow> Inl e | Inr out \<Rightarrow> Inr p),
      s\<lparr>events := events s @ [Exec (PodmanStart containerId)]\<rparr>)"
  by (simp add: podmanStart_def execAsync_def split: sum.splits)

lemma startContainer_wrap:
  "startContainer_try w s containerId = (x, s') \<Longrightarrow>
   startContainer w s containerId
     = ((case x of Inl e \<Rightarrow> Inl (Error (''Failed to start container: '' @ message e)) | Inr p \<Rightarrow> Inr p), s')"
  by (simp add: startContainer_def split: sum.splits)

text \<open>
  Claim C2. Let the inspected container be stopped, with an \<open>assignedPort\<close> label that
  reads as the port \<open>P\<close>. If the probe finds no listener on \<open>P\<close>, \<open>startContainer\<close>
  adds exactly \<open>P\<close> to \<open>usedPorts\<close> and then runs \<open>podman start\<close>; it returns
  \<open>P\<close> when that command succeeds. If the probe finds \<open>P\<close> occupied and the
  allocator then returns a port \<open>Q\<close> other than \<open>P\<close>, \<open>startContainer\<close> throws the
  conflict error (under the prefix of its catch block) and has run nothing but
  \<open>podman inspect\<close>, \<open>podman ps\<close> and \<open>lsof\<close>: no \<open>podman start\<close>.
\<close>

theorem startContainer_stopped:
  assumes insp: "inspectContainer w s containerId = (Inr info, s1)"
    and stopped: "\<not> Running info"
    and label: "assignedPort info = Some portLabel" "portLabel \<noteq> []" "parseInt portLabel = Num P"
    and probe: "isPortAvailable w s1 (Num P) = (free, s2)"
    and run: "startContainer w s containerId = (r, s')"
  shows "(free \<longrightarrow>
            usedPorts s' = insert (Num P) (usedPorts s)
          \<and> events s' = events s @ [Exec (PodmanInspect containerId), Exec (Lsof (Num P)),
                                     Reserve (Num P), Exec (PodmanStart containerId)]
          \<and> r = (case exec w (events s @ [Exec (PodmanInspect containerId), Exec (Lsof (Num P)),
                                          Reserve (Num P)]) (PodmanStart containerId) of
                   Inr out \<Rightarrow> Inr (Num P)
                 | Inl e \<Rightarrow> Inl (Error (''Failed to start container: '' @ message e))))
       \<and> (\<not> free \<longrightarrow>
            (\<forall>Q s3. findAvailablePort w s2 BASE_PORT = (Inr Q, s3) \<and> Q \<noteq> P \<longrightarrow>
               r = Inl (Error (''Failed to start container: '' @ message (portConflict portLabel)))
             \<and> s' = s3
             \<and> (\<forall>c. Exec c \<in> set (drop (length (events s)) (events s')) \<longrightarrow>
                   c = PodmanInspect containerId \<or> c = PodmanPsLabels \<or> (\<exists>q. c = Lsof q))))"
proof -
  have e1: "events s1 = events s @ [Exec (PodmanInspect containerId)]" and u1: "usedPorts s1 = usedPorts s"
    using inspectContainer_state [OF insp] by simp_all
  have e2: "events s2 = events s @ [Exec (PodmanInspect containerId), Exec (Lsof (Num P))]"
    and u2: "usedPorts s2 = usedPorts s"
    using isPortAvailable_state [OF probe] e1 u1 by simp_all
  have tr: "truthy (assignedPort info) = Some portLabel"
    using label by (simp add: truthy_def)
  have A: ?thesis if free
  proof -
    have body: "startContainer_try w s containerId
        = podmanStart w (usedPorts_add (Num P) s2) containerId (Num P)"
      using insp stopped tr label probe that by (simp add: startContainer_try_def)
    have ev: "events (usedPorts_add (Num P) s2)
        = events s @ [Exec (PodmanInspect containerId), Exec (Lsof (Num P)), Reserve (Num P)]"
      using e2 by (simp add: usedPorts_add_def)
    have up: "usedPorts (usedPorts_add (Num P) s2) = insert (Num P) (usedPorts s)"
      using u2 by (simp add: usedPorts_add_def)
    have "startContainer w s containerId =
       ((case exec w (events s @ [Exec (PodmanInspect containerId), Exec (Lsof (Num P)),
                                          Reserve (Num P)]) (PodmanStart containerId) of
                   Inr out \<Rightarrow> Inr (Num P)
                 | Inl e \<Rightarrow> Inl (Error (''Failed to start container: '' @ message e))),
        (usedPorts_add (Num P) s2)\<lparr>events := events (usedPorts_add (Num P) s2) @ [Exec (PodmanStart containerId)]\<rparr>)"
      unfolding body [unfolded podmanStart_cases, THEN startContainer_wrap] ev
      by (simp split: sum.splits)
    with run have "r = (case exec w (events s @ [Exec (PodmanInspect containerId), Exec (Lsof (Num P)),
                                          Reserve (Num P)]) (PodmanStart containerId) of
                   Inr out \<Rightarrow> Inr (Num P)
                 | Inl e \<Rightarrow> Inl (Error (''Failed to start container: '' @ message e)))"
      and "s' = (usedPorts_add (Num P) s2)\<lparr>events := events (usedPorts_add (Num P) s2) @ [Exec (PodmanStart containerId)]\<rparr>"
      by simp_all
    with ev up that show ?thesis by simp
  qed
  have B: ?thesis if nf: "\<not> free"
  proof -
    have "r = Inl (Error (''Failed to start container: '' @ message (portConflict portLabel)))
             \<and> s' = s3
             \<and> (\<forall>c. Exec c \<in> set (drop (length (events s)) (events s')) \<longrightarrow>
                   c = PodmanInspect containerId \<or> c = PodmanPsLabels \<or> (\<exists>q. c = Lsof q))"
      if alloc: "findAvailablePort w s2 BASE_PORT = (Inr Q, s3)" and ne: "Q \<noteq> P" for Q s3
    proof -
      have body: "startContainer_try w s containerId = (Inl (portConflict portLabel), s3)"
        using insp stopped tr label probe nf alloc ne by (simp add: startContainer_try_def)
      from startContainer_wrap [OF body] run
      have r: "r = Inl (Error (''Failed to start container: '' @ message (portConflict portLabel)))"
        and s': "s' = s3"
        by simp_all
      from findAvailablePort_trace [OF alloc]
      obtain qs where "events s3 = events s2 @ [Exec PodmanPsLabels]
             @ map (\<lambda>q. Exec (Lsof (Num q))) qs @ [Reserve (Num Q)]"
        by auto
      then have "drop (length (events s)) (events s') =
          [Exec (PodmanInspect containerId), Exec (Lsof (Num P)), Exec PodmanPsLabels]
             @ map (\<lambda>q. Exec (Lsof (Num q))) qs @ [Reserve (Num Q)]"
        using e2 s' by simp
      then have "\<forall>c. Exec c \<in> set (drop (length (events s)) (events s')) \<longrightarrow>
                   c = PodmanInspect containerId \<or> c = PodmanPsLabels \<or> (\<exists>q. c = Lsof q)"
        by auto
      with r s' show ?thesis by simp
    qed
    with nf show ?thesis by blast
  qed
  from A B show ?thesis by blast
qed

theorem startContainer_stopped_witness:
  "fst (startContainer demoWorld freshState ''c_idle'') = Inr (Num 8002)
   \<and> usedPorts (snd (startContainer demoWorld freshState ''c_idle'')) = {Num 8002}
   \<and> events (snd (startContainer demoWorld freshState ''c_idle''))
       = [Exec (PodmanInspect ''c_idle''), Exec (Lsof (Num 8002)), Reserve (Num 8002),
          Exec (PodmanStart ''c_idle'')]
   \<and> fst (startContainer demoWorld freshState ''c_stop'')
       = Inl (Error ''Failed to start container: Container port 8001 is no longer available. Please recreate the container.'')
   \<and> events (snd (startContainer demoWorld freshState ''c_stop''))
       = [Exec (PodmanInspect ''c_stop''), Exec (Lsof (Num 8001)), Exec PodmanPsLabels,
          Exec (Lsof (Num 8003)), Reserve (Num 8003)]"
proof -
  let ?idle = "\<lparr> Running = False, HostPort = Some ''8002'', assignedPort = Some ''8002'',
                 Image = Some ''dec-nextjs-ghi'' \<rparr>"
  let ?stop = "\<lparr> Running = False, HostPort = Some ''8001'', assignedPort = Some ''8001'',
                 Image = Some ''dec-nextjs-def'' \<rparr>"
  have insp_idle: "inspectContainer demoWorld freshState ''c_idle''
      = (Inr ?idle, \<lparr> usedPorts = {}, events = [Exec (PodmanInspect ''c_idle'')] \<rparr>)"
    by (simp add: podman_simps demo_simps)
  have probe_idle: "isPortAvailable demoWorld \<lparr> usedPorts = {}, events = [Exec (PodmanInspect ''c_idle'')] \<rparr> (Num 8002)
      = (True, \<lparr> usedPorts = {}, events = [Exec (PodmanInspect ''c_idle''), Exec (Lsof (Num 8002))] \<rparr>)"
    by (simp add: podman_simps parse_simps demo_simps)
  have p_idle: "parseInt ''8002'' = Num 8002"
    by (simp add: parse_simps)
  have idle: "fst (startContainer demoWorld freshState ''c_idle'') = Inr (Num 8002)
   \<and> usedPorts (snd (startContainer demoWorld freshState ''c_idle'')) = {Num 8002}
   \<and> events (snd (startContainer demoWorld freshState ''c_idle''))
       = [Exec (PodmanInspect ''c_idle''), Exec (Lsof (Num 8002)), Reserve (Num 8002),
          Exec (PodmanStart ''c_idle'')]"
    using startContainer_stopped [OF insp_idle _ _ _ p_idle probe_idle surjective_pairing]
    by (simp add: demo_simps)
  have insp_stop: "inspectContainer demoWorld freshState ''c_stop''
      = (Inr ?stop, \<lparr> usedPorts = {}, events = [Exec (PodmanInspect ''c_stop'')] \<rparr>)"
    by (simp add: podman_simps demo_simps)
  have probe_stop: "isPortAvailable demoWorld \<lparr> usedPorts = {}, events = [Exec (PodmanInspect ''c_stop'')] \<rparr> (Num 8001)
      = (False, \<lparr> usedPorts = {}, events = [Exec (PodmanInspect ''c_stop''), Exec (Lsof (Num 8001))] \<rparr>)"
    by (simp add: podman_simps parse_simps demo_simps)
  have p_stop: "parseInt ''8001'' = Num 8001"
    by (simp add: parse_simps)
  have alloc: "findAvailablePort demoWorld
        \<lparr> usedPorts = {}, events = [Exec (PodmanInspect ''c_stop''), Exec (Lsof (Num 8001))] \<rparr> BASE_PORT
      = (Inr 8003, \<lparr> usedPorts = {Num 8003},
           events = [Exec (PodmanInspect ''c_stop''), Exec (Lsof (Num 8001)), Exec PodmanPsLabels,
                     Exec (Lsof (Num 8003)), Reserve (Num 8003)] \<rparr>)"
    by (simp add: podman_simps parse_simps demo_simps)
  have stop: "fst (startContainer demoWorld freshState ''c_stop'')
       = Inl (Error ''Failed to start container: Container port 8001 is no longer available. Please recreate the container.'')
   \<and> events (snd (startContainer demoWorld freshState ''c_stop''))
       = [Exec (PodmanInspect ''c_stop''), Exec (Lsof (Num 8001)), Exec PodmanPsLabels,
          Exec (Lsof (Num 8003)), Reserve (Num 8003)]"
    using startContainer_stopped [OF insp_stop _ _ _ p_stop probe_stop surjective_pairing] alloc
    by (simp add: portConflict_def)
  from idle stop show ?thesis by simp
qed

text \<open>
  Claim C9. On the path of the conflict error (label port \<open>P\<close> occupied, the allocator
  returns \<open>Q\<close> other than \<open>P\<close>) the port \<open>Q\<close>, which was neither reserved nor
  labelled on any container, has been added to \<open>usedPorts\<close> by \<open>findAvailablePort\<close>;
  \<open>startContainer\<close> then throws without a single \<open>usedPorts.delete\<close> and without
  starting a container, so \<open>usedPorts\<close> is the old set with \<open>Q\<close> added.
\<close>

theorem startContainer_conflict_leak:
  assumes insp: "inspectContainer w s containerId = (Inr info, s1)"
    and stopped: "\<not> Running info"
    and label: "assignedPort info = Some portLabel" "portLabel \<noteq> []" "parseInt portLabel = Num P"
    and probe: "isPortAvailable w s1 (Num P) = (False, s2)"
    and alloc: "findAvailablePort w s2 BASE_PORT = (Inr Q, s3)"
    and differs: "Q \<noteq> P"
  shows "fst (startContainer w s containerId)
           = Inl (Error (''Failed to start container: '' @ message (portConflict portLabel)))
       \<and> Num Q \<notin> usedPorts s
       \<and> Num Q \<notin> set (assignedPortsOf (exec w (events s2) PodmanPsLabels))
       \<and> usedPorts (snd (startContainer w s containerId)) = insert (Num Q) (usedPorts s)
       \<and> (\<exists>evs. events (snd (startContainer w s containerId)) = events s @ evs @ [Reserve (Num Q)]
             \<and> (\<forall>p. Release p \<notin> set evs) \<and> (\<forall>c. Exec (PodmanStart c) \<notin> set evs))"
proof -
  have e1: "events s1 = events s @ [Exec (PodmanInspect containerId)]" and u1: "usedPorts s1 = usedPorts s"
    using inspectContainer_state [OF insp] by simp_all
  have e2: "events s2 = events s @ [Exec (PodmanInspect containerId), Exec (Lsof (Num P))]"
    and u2: "usedPorts s2 = usedPorts s"
    using isPortAvailable_state [OF probe] e1 u1 by simp_all
  have tr: "truthy (assignedPort info) = Some portLabel"
    using label by (simp add: truthy_def)
  have body: "startContainer_try w s containerId = (Inl (portConflict portLabel), s3)"
    using insp stopped tr label probe alloc differs by (simp add: startContainer_try_def)
  then have run: "startContainer w s containerId
      = (Inl (Error (''Failed to start container: '' @ message (portConflict portLabel))), s3)"
    by (simp add: startContainer_def)
  from findAvailablePort_trace [OF alloc]
  have fresh: "Num Q \<notin> usedPorts s2" "Num Q \<notin> set (assignedPortsOf (exec w (events s2) PodmanPsLabels))"
    and up: "usedPorts s3 = insert (Num Q) (usedPorts s2)"
    and ev: "events s3 = events s2 @ [Exec PodmanPsLabels]
              @ map (\<lambda>q. Exec (Lsof (Num q)))
                  (filter (\<lambda>q. Num q \<notin> usedPorts s2 \<union> set (assignedPortsOf (exec w (events s2) PodmanPsLabels))) [BASE_PORT..Q])
              @ [Reserve (Num Q)]"
    by simp_all
  define evs where "evs = [Exec (PodmanInspect containerId), Exec (Lsof (Num P)), Exec PodmanPsLabels]
              @ map (\<lambda>q. Exec (Lsof (Num q)))
                  (filter (\<lambda>q. Num q \<notin> usedPorts s2 \<union> set (assignedPortsOf (exec w (events s2) PodmanPsLabels))) [BASE_PORT..Q])"
  have "events s3 = events s @ evs @ [Reserve (Num Q)]"
    using ev e2 by (simp add: evs_def)
  moreover have "\<forall>p. Release p \<notin> set evs" "\<forall>c. Exec (PodmanStart c) \<notin> set evs"
    by (auto simp: evs_def)
  ultimately have "\<exists>evs. events s3 = events s @ evs @ [Reserve (Num Q)]
             \<and> (\<forall>p. Release p \<notin> set evs) \<and> (\<forall>c. Exec (PodmanStart c) \<notin> set evs)"
    by blast
  with run fresh up u2 show ?thesis by simp
qed

theorem startContainer_conflict_leak_witness:
  "fst (startContainer demoWorld freshState ''c_stop'')
       = Inl (Error ''Failed to start container: Container port 8001 is no longer available. Please recreate the container.'')
   \<and> Num 8003 \<notin> usedPorts freshState
   \<and> usedPorts (snd (startContainer demoWorld freshState ''c_stop'')) = {Num 8003}"
proof -
  let ?stop = "\<lparr> Running = False, HostPort = Some ''8001'', assignedPort = Some ''8001'',
                 Image = Some ''dec-nextjs-def'' \<rparr>"
  have insp: "inspectContainer demoWorld freshState ''c_stop''
      = (Inr ?stop, \<lparr> usedPorts = {}, events = [Exec (PodmanInspect ''c_stop'')] \<rparr>)"
    by (simp add: podman_simps demo_simps)
  have probe: "isPortAvailable demoWorld \<lparr> usedPorts = {}, events = [Exec (PodmanInspect ''c_stop'')] \<rparr> (Num 8001)
      = (False, \<lparr> usedPorts = {}, events = [Exec (PodmanInspect ''c_stop''), Exec (Lsof (Num 8001))] \<rparr>)"
    by (simp add: podman_simps parse_simps demo_simps)
  have label: "parseInt ''8001'' = Num 8001"
    by (simp add: parse_simps)
  have alloc: "findAvailablePort demoWorld
        \<lparr> usedPorts = {}, events = [Exec (PodmanInspect ''c_stop''), Exec (Lsof (Num 8001))] \<rparr> BASE_PORT
      = (Inr 8003, \<lparr> usedPorts = {Num 8003},
           events = [Exec (PodmanInspect ''c_stop''), Exec (Lsof (Num 8001)), Exec PodmanPsLabels,
                     Exec (Lsof (Num 8003)), Reserve (Num 8003)] \<rparr>)"
    by (simp add: podman_simps parse_simps demo_simps)
  from startContainer_conflict_leak [OF insp _ _ _ label probe alloc] show ?thesis
    by (simp add: portConflict_def freshState_def)
qed

text \<open>
  Claim C3, as the code has it. On a container that \<open>podman inspect\<close> reports as
  running, \<open>startContainer\<close> runs no command but the inspection (no \<open>podman start\<close>)
  and returns the port read from the host port of the \<open>3000/tcp\<close> binding when that is
  present and not empty, otherwise from the \<open>assignedPort\<close> label; with neither it
  throws. It is not a pure read: \<open>getPortFromContainer\<close> adds the port it returns to
  \<open>usedPorts\<close>, so the set is unchanged only when the port was already in it.
\<close>

theorem startContainer_running:
  assumes insp: "inspectContainer w s containerId = (Inr info, s1)"
    and running: "Running info"
    and run: "startContainer w s containerId = (r, s')"
  shows "r = (case truthy (HostPort info) of
                Some hostPort \<Rightarrow> Inr (parseInt hostPort)
              | None \<Rightarrow> (case truthy (assignedPort info) of
                    Some portLabel \<Rightarrow> Inr (parseInt portLabel)
                  | None \<Rightarrow> Inl (Error ''Failed to start container: Could not determine container port'')))
       \<and> events s' = events s @ Exec (PodmanInspect containerId)
                        # (case r of Inr port \<Rightarrow> [Reserve port] | Inl e \<Rightarrow> [])
       \<and> usedPorts s' = (case r of Inr port \<Rightarrow> insert port (usedPorts s) | Inl e \<Rightarrow> usedPorts s)"
proof -
  have e1: "events s1 = events s @ [Exec (PodmanInspect containerId)]" and u1: "usedPorts s1 = usedPorts s"
    using inspectContainer_state [OF insp] by simp_all
  have body: "startContainer_try w s containerId = getPortFromContainer info s1"
    using insp running by (simp add: startContainer_try_def)
  show ?thesis
  proof (cases "getPortFromContainer info s1")
    case (Pair x sx)
    from startContainer_wrap [OF body [unfolded Pair]] run
    have r: "r = (case x of Inl e \<Rightarrow> Inl (Error (''Failed to start container: '' @ message e)) | Inr p \<Rightarrow> Inr p)"
      and s': "s' = sx" by simp_all
    show ?thesis
    proof (cases x)
      case (Inl e)
      with Pair getPortFromContainer_state(2) [of info s1 e sx] r s' e1 u1 show ?thesis
        by (auto simp: getPortFromContainer_cases split: option.splits)
    next
      case (Inr p)
      with Pair getPortFromContainer_state(1) [of info s1 p sx] r s' e1 u1 show ?thesis
        by (auto simp: getPortFromContainer_cases usedPorts_add_def split: option.splits)
    qed
  qed
qed

theorem startContainer_running_witness:
  "fst (inspectContainer demoWorld freshState ''c_run'')
     = Inr \<lparr> Running = True, HostPort = Some ''8000'', assignedPort = Some ''8000'',
             Image = Some ''dec-nextjs-abc'' \<rparr>
   \<and> fst (startContainer demoWorld freshState ''c_run'') = Inr (Num 8000)
   \<and> events (snd (startContainer demoWorld freshState ''c_run''))
       = [Exec (PodmanInspect ''c_run''), Reserve (Num 8000)]"
proof -
  let ?run = "\<lparr> Running = True, HostPort = Some ''8000'', assignedPort = Some ''8000'',
                Image = Some ''dec-nextjs-abc'' \<rparr>"
  have insp: "inspectContainer demoWorld freshState ''c_run''
      = (Inr ?run, \<lparr> usedPorts = {}, events = [Exec (PodmanInspect ''c_run'')] \<rparr>)"
    by (simp add: podman_simps demo_simps)
  have port: "parseInt ''8000'' = Num 8000"
    by (simp add: parse_simps)
  from startContainer_running [OF insp _ surjective_pairing] insp port show ?thesis
    by (simp add: truthy_def freshState_def)
qed

text \<open>
  The claim C3 as it is written fails on a fresh process: the running container
  \<open>c_run\<close> is inspected, its port 8000 is returned, and \<open>usedPorts\<close>, empty before
  the call, holds 8000 after it.
\<close>

theorem startContainer_running_counterexample:
  "fst (inspectContainer demoWorld freshState ''c_run'')
     = Inr \<lparr> Running = True, HostPort = Some ''8000'', assignedPort = Some ''8000'',
             Image = Some ''dec-nextjs-abc'' \<rparr>
   \<and> fst (startContainer demoWorld freshState ''c_run'') = Inr (Num 8000)
   \<and> usedPorts freshState = {}
   \<and> usedPorts (snd (startContainer demoWorld freshState ''c_run'')) = {Num 8000}
   \<and> usedPorts (snd (startContainer demoWorld freshState ''c_run'')) \<noteq> usedPorts freshState"
  by (simp add: podman_simps parse_simps demo_simps)

lemma deleteImage_cases:
  "deleteImage w s info =
     (Inr (), s\<lparr>events := events s @
        (case truthy (Image info) of
           Some imageName \<Rightarrow> if str_includes imageName ''dec-nextjs-'' then [Exec (PodmanRmi imageName)] else []
         | None \<Rightarrow> [])\<rparr>)"
  by (simp add: deleteImage_def execAsync_def split: option.splits sum.splits)

lemma removeContainer_cases:
  "removeContainer w s containerId info =
     (if resolved (exec w (events s) (PodmanRm containerId))
      then (Inr (), s\<lparr>events := events s @ Exec (PodmanRm containerId) #
        (case truthy (Image info) of
           Some imageName \<Rightarrow> if str_includes imageName ''dec-nextjs-'' then [Exec (PodmanRmi imageName)] else []
         | None \<Rightarrow> [])\<rparr>)
      else (Inl (projl (exec w (events s) (PodmanRm containerId))),
            s\<lparr>events := events s @ [Exec (PodmanRm containerId)]\<rparr>))"
  by (simp add: removeContainer_def deleteImage_cases execAsync_def resolved_def split: sum.splits)

lemma deleteContainer_wrap:
  "deleteContainer_try w s containerId = (x, s') \<Longrightarrow>
   deleteContainer w s containerId
     = ((case x of Inl e \<Rightarrow> Inl (Error (''Failed to delete container: '' @ message e)) | Inr u \<Rightarrow> Inr u), s')"
  by (simp add: deleteContainer_def split: sum.splits)

text \<open>
  Claim C4. Let the inspection succeed and the container have a port. Then
  \<open>deleteContainer\<close> does, in this order: the inspection, the \<open>usedPorts.add\<close> of
  \<open>getPortFromContainer\<close> and the one \<open>usedPorts.delete\<close> of that port (running or
  not); \<open>podman stop\<close> if and only if the container is running; \<open>podman rm -f\<close>,
  only after the stop has succeeded when there was one; and last \<open>podman rmi -f\<close>, only
  when the removal succeeded and the image name includes \<open>dec-nextjs-\<close>. The port is
  not in \<open>usedPorts\<close> afterwards. The call succeeds exactly when the stop (if any) and
  the removal succeeded: what \<open>podman rmi\<close> answers has no part in the result.
\<close>

theorem deleteContainer_trace:
  assumes insp: "inspectContainer w s containerId = (Inr info, s1)"
    and port: "getPortFromContainer info s1 = (Inr port, s2)"
    and run: "deleteContainer w s containerId = (r, s')"
  shows "let pre = [Exec (PodmanInspect containerId), Reserve port, Release port];
             stop = (if Running info then [Exec (PodmanStop containerId)] else []);
             stopped = (Running info \<longrightarrow> resolved (exec w (events s @ pre) (PodmanStop containerId)));
             removed = resolved (exec w (events s @ pre @ stop) (PodmanRm containerId));
             rmi = (case truthy (Image info) of
                      Some imageName \<Rightarrow>
                        if str_includes imageName ''dec-nextjs-'' then [Exec (PodmanRmi imageName)] else []
                    | None \<Rightarrow> [])
         in events s' = events s @ pre @ stop
                          @ (if stopped then Exec (PodmanRm containerId) # (if removed then rmi else []) else [])
          \<and> usedPorts s' = usedPorts s - {port}
          \<and> (r = Inr () \<longleftrightarrow> stopped \<and> removed)"
proof -
  define s3 where "s3 = releasePort port s2"
  have e1: "events s1 = events s @ [Exec (PodmanInspect containerId)]" and u1: "usedPorts s1 = usedPorts s"
    using inspectContainer_state [OF insp] by simp_all
  have e3: "events s3 = events s @ [Exec (PodmanInspect containerId), Reserve port, Release port]"
    and u3: "usedPorts s3 = usedPorts s - {port}"
    using getPortFromContainer_state(1) [OF port] e1 u1
    by (auto simp: s3_def releasePort_def usedPorts_add_def)
  show ?thesis
  proof (cases "Running info")
    case False
    have body: "deleteContainer_try w s containerId = removeContainer w s3 containerId info"
      using insp port False by (simp add: deleteContainer_try_def s3_def)
    show ?thesis
    proof (cases "resolved (exec w (events s3) (PodmanRm containerId))")
      case True
      with body deleteContainer_wrap [of w s containerId] run False e3 u3 show ?thesis
        by (auto simp: removeContainer_cases Let_def)
    next
      case nres: False
      with body deleteContainer_wrap [of w s containerId] run False e3 u3 show ?thesis
        by (auto simp: removeContainer_cases Let_def)
    qed
  next
    case True
    show ?thesis
    proof (cases "exec w (events s3) (PodmanStop containerId)")
      case (Inl e)
      have body: "deleteContainer_try w s containerId
          = (Inl e, s3\<lparr>events := events s3 @ [Exec (PodmanStop containerId)]\<rparr>)"
        using insp port True Inl by (simp add: deleteContainer_try_def s3_def [symmetric] execAsync_def)
      from deleteContainer_wrap [OF body] run Inl True e3 u3 show ?thesis
        by (auto simp: Let_def resolved_def)
    next
      case (Inr out)
      define s4 where "s4 = s3\<lparr>events := events s3 @ [Exec (PodmanStop containerId)]\<rparr>"
      have e4: "events s4 = events s @ [Exec (PodmanInspect containerId), Reserve port, Release port,
                   Exec (PodmanStop containerId)]"
        and u4: "usedPorts s4 = usedPorts s - {port}"
        using e3 u3 by (simp_all add: s4_def)
      have body: "deleteContainer_try w s containerId = removeContainer w s4 containerId info"
        using insp port True Inr
        by (simp add: deleteContainer_try_def s3_def [symmetric] s4_def execAsync_def)
      have st: "resolved (exec w (events s @ [Exec (PodmanInspect containerId), Reserve port, Release port])
                  (PodmanStop containerId))"
        using Inr e3 by (simp add: resolved_def)
      show ?thesis
      proof (cases "resolved (exec w (events s4) (PodmanRm containerId))")
        case rres: True
        with body deleteContainer_wrap [of w s containerId] run True e4 u4 st show ?thesis
          by (auto simp: removeContainer_cases Let_def)
      next
        case nres: False
        with body deleteContainer_wrap [of w s containerId] run True e4 u4 st show ?thesis
          by (auto simp: removeContainer_cases Let_def)
      qed
    qed
  qed
qed

theorem deleteContainer_trace_witness:
  "fst (deleteContainer demoWorld freshState ''c_run'') = Inr ()
   \<and> events (snd (deleteContainer demoWorld freshState ''c_run''))
       = [Exec (PodmanInspect ''c_run''), Reserve (Num 8000), Release (Num 8000),
          Exec (PodmanStop ''c_run''), Exec (PodmanRm ''c_run''), Exec (PodmanRmi ''dec-nextjs-abc'')]
   \<and> exec demoWorld
         [Exec (PodmanInspect ''c_run''), Reserve (Num 8000), Release (Num 8000),
          Exec (PodmanStop ''c_run''), Exec (PodmanRm ''c_run'')] (PodmanRmi ''dec-nextjs-abc'')
       = Inl (Error ''image is in use'')
   \<and> usedPorts (snd (deleteContainer demoWorld freshState ''c_run'')) = {}"
proof -
  let ?run = "\<lparr> Running = True, HostPort = Some ''8000'', assignedPort = Some ''8000'',
                Image = Some ''dec-nextjs-abc'' \<rparr>"
  have insp: "inspectContainer demoWorld freshState ''c_run''
      = (Inr ?run, \<lparr> usedPorts = {}, events = [Exec (PodmanInspect ''c_run'')] \<rparr>)"
    by (simp add: podman_simps demo_simps)
  have port: "getPortFromContainer ?run \<lparr> usedPorts = {}, events = [Exec (PodmanInspect ''c_run'')] \<rparr>
      = (Inr (Num 8000), \<lparr> usedPorts = {Num 8000},
           events = [Exec (PodmanInspect ''c_run''), Reserve (Num 8000)] \<rparr>)"
    by (simp add: podman_simps parse_simps)
  have image: "str_includes ''dec-nextjs-abc'' ''dec-nextjs-''"
    by simp
  from deleteContainer_trace [OF insp port surjective_pairing] image show ?thesis
    by (simp add: Let_def truthy_def resolved_def demo_simps)
qed

section \<open>Interleaved calls of the allocator\<close>

text \<open>
  A single call, resumed until it ends, does what \<open>findAvailablePort\<close> does: the
  suspended calls are the same code, cut at its \<open>await\<close>s.
\<close>

lemma resume1_finished [simp]: "resume1 w (finished rs) = finished rs"
  by (cases rs) (auto simp: resume1_def finished_def split: sum.splits)

lemma resume1_pow_finished [simp]: "(resume1 w ^^ n) (finished rs) = finished rs"
  by (induction n) simp_all

lemma advance_loop:
  "\<exists>n. (resume1 w ^^ n) (advance w A sp port s) = finished (findAvailablePort_loop w A sp port s)"
proof (induction w A sp port s rule: findAvailablePort_loop.induct)
  case (1 w A sp port s)
  show ?case
  proof (cases "port < sp + 1000")
    case False
    then have "(resume1 w ^^ 0) (advance w A sp port s) = finished (findAvailablePort_loop w A sp port s)"
      by (simp add: advance.simps findAvailablePort_loop.simps finished_def)
    then show ?thesis by blast
  next
    case inwin: True
    show ?thesis
    proof (cases "Num port \<in> A")
      case True
      with inwin "1.IH"(2) show ?thesis
        by (simp add: advance.simps [of w A sp port] findAvailablePort_loop.simps [of w A sp port])
    next
      case notin: False
      obtain free s1 where probe: "isPortAvailable w s (Num port) = (free, s1)"
        by (cases "isPortAvailable w s (Num port)")
      then have ex: "execAsync w s (Lsof (Num port)) = (exec w (events s) (Lsof (Num port)), s1)"
        and free: "free = portAvailableOf (exec w (events s) (Lsof (Num port)))"
        by (auto simp: isPortAvailable_def execAsync_def)
      have adv: "advance w A sp port s = (AwaitLsof A sp port (exec w (events s) (Lsof (Num port))), s1)"
        using inwin notin ex by (simp add: advance.simps [of w A sp port])
      show ?thesis
      proof (cases free)
        case True
        have "(resume1 w ^^ 1) (advance w A sp port s) = finished (findAvailablePort_loop w A sp port s)"
          using True inwin notin probe free adv
          by (simp add: findAvailablePort_loop.simps [of w A sp port] resume1_def finished_def)
        then show ?thesis by blast
      next
        case False
        from "1.IH"(1) [OF inwin notin probe [symmetric] _ _] False
        obtain n where n: "(resume1 w ^^ n) (advance w A sp (port + 1) s1)
            = finished (findAvailablePort_loop w A sp (port + 1) s1)"
          by auto
        have "(resume1 w ^^ Suc n) (advance w A sp port s) = finished (findAvailablePort_loop w A sp port s)"
          using False inwin notin probe free adv n
          by (simp add: findAvailablePort_loop.simps [of w A sp port] resume1_def funpow_swap1)
        then show ?thesis by blast
      qed
    qed
  qed
qed

lemma call_alone:
  "\<exists>n. (resume1 w ^^ n) (call w startPort s) = finished (findAvailablePort w s startPort)"
proof -
  define s1 where "s1 = s\<lparr>events := events s @ [Exec PodmanPsLabels]\<rparr>"
  define A where "A = usedPorts s \<union> set (assignedPortsOf (exec w (events s) PodmanPsLabels))"
  obtain n where "(resume1 w ^^ n) (advance w A startPort startPort s1)
      = finished (findAvailablePort_loop w A startPort startPort s1)"
    using advance_loop by blast
  then have "(resume1 w ^^ Suc n) (call w startPort s) = finished (findAvailablePort w s startPort)"
    by (simp add: funpow_swap1 call_def execAsync_def resume1_def findAvailablePort_def
        getAllAssignedPorts_def s1_def A_def)
  then show ?thesis by blast
qed

text \<open>
  Claim C1 fails on the code, by the defect of claim C5. Two calls of
  \<open>findAvailablePort(8000)\<close> are in flight in a fresh process, on a host with no
  labelled container and no listener. Both take their snapshot \<open>allUsedPorts = {}\<close>
  and both start the probe of port 8000. The first call gets its answer, reserves 8000
  and returns it. When the second call gets its answer and decides, port 8000 is in
  \<open>usedPorts\<close>; the call does not look at the set again after the \<open>await\<close>, and
  returns 8000: a port that is in the local reservation set at the moment of the
  decision.
\<close>

theorem findAvailablePort_returns_reserved_port:
  "runSchedule quietWorld [0, 1, 0] (callAll quietWorld [8000, 8000] freshState)
     = ([Returned 8000, AwaitLsof {} 8000 8000 (Inl (Error ''Command failed: lsof''))],
        \<lparr> usedPorts = {Num 8000},
          events = [Exec PodmanPsLabels, Exec PodmanPsLabels, Exec (Lsof (Num 8000)),
                    Exec (Lsof (Num 8000)), Reserve (Num 8000)] \<rparr>)
   \<and> Num 8000 \<in> usedPorts (snd (runSchedule quietWorld [0, 1, 0]
                                     (callAll quietWorld [8000, 8000] freshState)))
   \<and> resume quietWorld (AwaitLsof {} 8000 8000 (Inl (Error ''Command failed: lsof'')))
         \<lparr> usedPorts = {Num 8000},
           events = [Exec PodmanPsLabels, Exec PodmanPsLabels, Exec (Lsof (Num 8000)),
                     Exec (Lsof (Num 8000)), Reserve (Num 8000)] \<rparr>
     = (Returned 8000,
        \<lparr> usedPorts = {Num 8000},
          events = [Exec PodmanPsLabels, Exec PodmanPsLabels, Exec (Lsof (Num 8000)),
                    Exec (Lsof (Num 8000)), Reserve (Num 8000), Reserve (Num 8000)] \<rparr>)"
  by (simp add: runSchedule_def resumeTask_def call_def execAsync_def demo_simps
      parse_simps advance.simps usedPorts_add_def)

text \<open>
  Claim C5 fails on the code. Two calls of \<open>findAvailablePort(8000)\<close> are in flight
  on a host with no labelled container and no listener, with nothing reserved. Both get
  their (empty) answer from \<open>podman ps\<close> before either reserves a port, so both take
  the snapshot \<open>allUsedPorts = {}\<close> and both probe port 8000. The test
  \<open>!allUsedPorts.has(port)\<close> is made on that snapshot before the \<open>await\<close> of the
  probe, and \<open>usedPorts\<close> is not looked at again after it: both calls return 8000.
\<close>

theorem findAvailablePort_interleaved_same_port:
  "fst (callAll quietWorld [8000, 8000] freshState)
     = [AwaitPs 8000 (Inr []), AwaitPs 8000 (Inr [])]
   \<and> fst (runSchedule quietWorld [0, 1, 0, 1] (callAll quietWorld [8000, 8000] freshState))
     = [Returned 8000, Returned 8000]"
  by (simp add: runSchedule_def resumeTask_def call_def execAsync_def demo_simps
      parse_simps advance.simps usedPorts_add_def)

section \<open>Properties of the file tree\<close>

lemma lastIndexOf_bounds: "- 1 \<le> lastIndexOf d s \<and> lastIndexOf d s < int (length s)"
  by (induction s) (auto simp: Let_def)

lemma parentKey_cases:
  "parentKey containerPath p = containerPath \<or> strict_prefix (parentKey containerPath p) p"
proof (cases "substring0 p (lastIndexOf CHR ''/'' p) = []")
  case True
  then show ?thesis by (simp add: parentKey_def)
next
  case False
  have "nat (lastIndexOf CHR ''/'' p) < length p"
    using lastIndexOf_bounds [of "CHR ''/''" p] False by (auto simp: substring0_def)
  then have "strict_prefix (take (nat (lastIndexOf CHR ''/'' p)) p) p"
    by (metis append_take_drop_id drop_eq_Nil linorder_not_less prefixI self_append_conv strict_prefixI)
  with False show ?thesis
    by (simp add: parentKey_def substring0_def)
qed

lemma strict_prefix_less:
  fixes xs ys :: string
  assumes "strict_prefix xs ys"
  shows "xs < ys"
proof -
  from assms obtain z zs where "ys = xs @ z # zs"
    by (rule strict_prefixE')
  then show ?thesis
    by (simp add: list_less_def lexord_append_rightI)
qed

lemma getFileStat_state:
  "snd (getFileStat w s containerId filePath) = s\<lparr>events := events s @ [Exec (Stat containerId filePath)]\<rparr>"
  by (simp add: getFileStat_def execInContainer_def execAsync_def split: sum.splits)

lemma getFileTree_step_keys:
  "getFileTree_step w containerId containerPath p (s, h, ft) = (s', h', ft') \<Longrightarrow>
     fst ` set ft' = insert p (fst ` set ft)"
proof -
  assume "getFileTree_step w containerId containerPath p (s, h, ft) = (s', h', ft')"
  then have "ft' = AList.update p (length h) ft"
    by (auto simp: getFileTree_step_def Let_def split: prod.splits)
  then show ?thesis
    by (simp add: dom_update)
qed

lemma getFileTree_fold_keys:
  "fold (getFileTree_step w containerId containerPath) ps (s, h, ft) = (s', h', ft') \<Longrightarrow>
     fst ` set ft' = fst ` set ft \<union> set ps"
proof (induction ps arbitrary: s h ft)
  case Nil
  then show ?case by simp
next
  case (Cons p ps)
  obtain s1 h1 ft1 where step: "getFileTree_step w containerId containerPath p (s, h, ft) = (s1, h1, ft1)"
    by (cases "getFileTree_step w containerId containerPath p (s, h, ft)")
  with Cons.prems have "fold (getFileTree_step w containerId containerPath) ps (s1, h1, ft1) = (s', h', ft')"
    by simp
  from Cons.IH [OF this] getFileTree_step_keys [OF step] show ?case
    by auto
qed

lemma parent_listed_before:
  assumes sorted: "sorted paths"
    and closed: "\<forall>p \<in> set paths. parentKey containerPath p = containerPath \<or> parentKey containerPath p \<in> set paths"
    and i: "i < length paths"
  shows "parentKey containerPath (paths ! i) \<in> insert containerPath (set (take i paths))"
proof (cases "parentKey containerPath (paths ! i) = containerPath")
  case True
  then show ?thesis by simp
next
  case False
  with closed i have "parentKey containerPath (paths ! i) \<in> set paths"
    by (metis nth_mem)
  then obtain j where j: "j < length paths" "paths ! j = parentKey containerPath (paths ! i)"
    by (auto simp: in_set_conv_nth)
  from False parentKey_cases [of containerPath "paths ! i"]
  have "paths ! j < paths ! i"
    using j strict_prefix_less by auto
  then have "j < i"
    using sorted i j sorted_nth_mono [of paths i j] by (cases "j < i") auto
  then have "paths ! j \<in> set (take i paths)"
    using i by (auto simp: in_set_conv_nth)
  with j show ?thesis by simp
qed

lemma parent_present:
  assumes sorted: "sorted paths"
    and closed: "\<forall>p \<in> set paths. parentKey containerPath p = containerPath \<or> parentKey containerPath p \<in> set paths"
    and i: "i < length paths"
    and run: "fold (getFileTree_step w containerId containerPath) (take i paths)
                (s, [rootItem containerPath], [(containerPath, 0)]) = (s', h', ft')"
  shows "map_of ft' (parentKey containerPath (paths ! i)) \<noteq> None"
proof -
  have "parentKey containerPath (paths ! i) \<in> fst ` set ft'"
    using parent_listed_before [OF sorted closed i] getFileTree_fold_keys [OF run] by auto
  then show ?thesis
    by (metis map_of_eq_None_iff)
qed


lemma example_tree:
  assumes find: "exec w (events s) (FindTree containerId ''/root'') = Inr out"
    and paths: "listedPaths ''/root'' out = [''/root/a'', ''/root/a/b.txt'', ''/root/c'']"
    and a: "fst (getFileStat w (s\<lparr>events := events s @ [Exec (FindTree containerId ''/root'')]\<rparr>)
                  containerId ''/root/a'')"
    and b: "\<not> fst (getFileStat w (s\<lparr>events := events s @ [Exec (FindTree containerId ''/root''),
                  Exec (Stat containerId ''/root/a'')]\<rparr>) containerId ''/root/a/b.txt'')"
    and c: "fst (getFileStat w (s\<lparr>events := events s @ [Exec (FindTree containerId ''/root''),
                  Exec (Stat containerId ''/root/a''), Exec (Stat containerId ''/root/a/b.txt'')]\<rparr>)
                  containerId ''/root/c'')"
  shows "fst (getFileTree w s containerId ''/root'')
     = Inr [FileItem ''a'' ''/root/a'' Directory
              (Some [FileItem ''b.txt'' ''/root/a/b.txt'' File None None]) None,
            FileItem ''c'' ''/root/c'' Directory (Some []) None]"
proof -
  define s1 where "s1 = s\<lparr>events := events s @ [Exec (FindTree containerId ''/root'')]\<rparr>"
  define s2 where "s2 = s\<lparr>events := events s @ [Exec (FindTree containerId ''/root''),
                  Exec (Stat containerId ''/root/a'')]\<rparr>"
  define s3 where "s3 = s\<lparr>events := events s @ [Exec (FindTree containerId ''/root''),
                  Exec (Stat containerId ''/root/a''), Exec (Stat containerId ''/root/a/b.txt'')]\<rparr>"
  define s4 where "s4 = s3\<lparr>events := events s3 @ [Exec (Stat containerId ''/root/c'')]\<rparr>"
  have A: "getFileStat w s1 containerId ''/root/a'' = (True, s2)"
    using a getFileStat_state [of w s1 containerId "''/root/a''"]
    by (simp add: s1_def s2_def prod_eq_iff)
  have B: "getFileStat w s2 containerId ''/root/a/b.txt'' = (False, s3)"
    using b getFileStat_state [of w s2 containerId "''/root/a/b.txt''"]
    by (simp add: s2_def s3_def prod_eq_iff)
  have C: "getFileStat w s3 containerId ''/root/c'' = (True, s4)"
    using c getFileStat_state [of w s3 containerId "''/root/c''"]
    by (simp add: s3_def s4_def prod_eq_iff)
  have st1: "getFileTree_step w containerId ''/root'' ''/root/a''
         (s1, [rootItem ''/root''], [(''/root'', 0)])
       = (s2, [(rootItem ''/root'')\<lparr>children := Some [1]\<rparr>, newItem ''/root'' ''/root/a'' True],
          [(''/root'', 0), (''/root/a'', 1)])"
    by (simp add: getFileTree_step_def A attach_def parentKey_def substring0_def newItem_def rootItem_def)
  have st2: "getFileTree_step w containerId ''/root'' ''/root/a/b.txt''
         (s2, [(rootItem ''/root'')\<lparr>children := Some [1]\<rparr>, newItem ''/root'' ''/root/a'' True],
          [(''/root'', 0), (''/root/a'', 1)])
       = (s3, [(rootItem ''/root'')\<lparr>children := Some [1]\<rparr>,
               (newItem ''/root'' ''/root/a'' True)\<lparr>children := Some [2]\<rparr>,
               newItem ''/root'' ''/root/a/b.txt'' False],
          [(''/root'', 0), (''/root/a'', 1), (''/root/a/b.txt'', 2)])"
    by (simp add: getFileTree_step_def B attach_def parentKey_def substring0_def newItem_def rootItem_def)
  have st3: "getFileTree_step w containerId ''/root'' ''/root/c''
         (s3, [(rootItem ''/root'')\<lparr>children := Some [1]\<rparr>,
               (newItem ''/root'' ''/root/a'' True)\<lparr>children := Some [2]\<rparr>,
               newItem ''/root'' ''/root/a/b.txt'' False],
          [(''/root'', 0), (''/root/a'', 1), (''/root/a/b.txt'', 2)])
       = (s4, [(rootItem ''/root'')\<lparr>children := Some [1, 3]\<rparr>,
               (newItem ''/root'' ''/root/a'' True)\<lparr>children := Some [2]\<rparr>,
               newItem ''/root'' ''/root/a/b.txt'' False,
               newItem ''/root'' ''/root/c'' True],
          [(''/root'', 0), (''/root/a'', 1), (''/root/a/b.txt'', 2), (''/root/c'', 3)])"
    by (simp add: getFileTree_step_def C attach_def parentKey_def substring0_def newItem_def rootItem_def)
  have run: "fold (getFileTree_step w containerId ''/root'') (listedPaths ''/root'' out)
         (s1, [rootItem ''/root''], [(''/root'', 0)])
       = (s4, [(rootItem ''/root'')\<lparr>children := Some [1, 3]\<rparr>,
               (newItem ''/root'' ''/root/a'' True)\<lparr>children := Some [2]\<rparr>,
               newItem ''/root'' ''/root/a/b.txt'' False,
               newItem ''/root'' ''/root/c'' True],
          [(''/root'', 0), (''/root/a'', 1), (''/root/a/b.txt'', 2), (''/root/c'', 3)])"
    by (simp only: paths fold_simps st1 st2 st3)
  have "getFileTree w s containerId ''/root''
      = (Inr (rootChildren [(rootItem ''/root'')\<lparr>children := Some [1, 3]\<rparr>,
               (newItem ''/root'' ''/root/a'' True)\<lparr>children := Some [2]\<rparr>,
               newItem ''/root'' ''/root/a/b.txt'' False,
               newItem ''/root'' ''/root/c'' True]
            [(''/root'', 0), (''/root/a'', 1), (''/root/a/b.txt'', 2), (''/root/c'', 3)] ''/root''), s4)"
    using find
    by (simp add: getFileTree_def execInContainer_def execAsync_def s1_def [symmetric] run)
  then show ?thesis
    by (simp add: rootChildren_def resolve_def List.map_filter_def newItem_def rootItem_def
        fileNameOf_def)
qed

text \<open>
  Claim C6. First part: whenever the listing of \<open>/root\<close> leaves the three paths
  \<open>/root/a\<close>, \<open>/root/a/b.txt\<close>, \<open>/root/c\<close> in this order, and \<open>stat\<close> says
  directory, file, directory, \<open>getFileTree\<close> returns exactly two nodes, \<open>a\<close> before
  \<open>c\<close>, where \<open>a\<close> has the one child \<open>b.txt\<close> and \<open>c\<close> has an empty list of
  children. Second part: when the listed paths are sorted (byte-wise, as \<open>sort\<close> does)
  and the listing holds the parent directory of every path it holds (below the
  traversal root), then at the moment a path is taken up by the loop the map
  \<open>fileTree\<close> already has an entry under the key of its parent lookup.
\<close>

theorem getFileTree_parent_first:
  "(exec w (events s) (FindTree containerId ''/root'') = Inr out
      \<and> listedPaths ''/root'' out = [''/root/a'', ''/root/a/b.txt'', ''/root/c'']
      \<and> fst (getFileStat w (s\<lparr>events := events s @ [Exec (FindTree containerId ''/root'')]\<rparr>)
                  containerId ''/root/a'')
      \<and> \<not> fst (getFileStat w (s\<lparr>events := events s @ [Exec (FindTree containerId ''/root''),
                  Exec (Stat containerId ''/root/a'')]\<rparr>) containerId ''/root/a/b.txt'')
      \<and> fst (getFileStat w (s\<lparr>events := events s @ [Exec (FindTree containerId ''/root''),
                  Exec (Stat containerId ''/root/a''), Exec (Stat containerId ''/root/a/b.txt'')]\<rparr>)
                  containerId ''/root/c'')
    \<longrightarrow> fst (getFileTree w s containerId ''/root'')
          = Inr [FileItem ''a'' ''/root/a'' Directory
                   (Some [FileItem ''b.txt'' ''/root/a/b.txt'' File None None]) None,
                 FileItem ''c'' ''/root/c'' Directory (Some []) None])
   \<and> (sorted paths
      \<and> (\<forall>p \<in> set paths. parentKey containerPath p = containerPath
                            \<or> parentKey containerPath p \<in> set paths)
      \<and> i < length paths
    \<longrightarrow> (case fold (getFileTree_step w containerId containerPath) (take i paths)
                 (s, [rootItem containerPath], [(containerPath, 0)]) of
            (s', h', fileTree') \<Rightarrow> map_of fileTree' (parentKey containerPath (paths ! i)) \<noteq> None))"
proof (intro conjI impI)
  assume "exec w (events s) (FindTree containerId ''/root'') = Inr out
      \<and> listedPaths ''/root'' out = [''/root/a'', ''/root/a/b.txt'', ''/root/c'']
      \<and> fst (getFileStat w (s\<lparr>events := events s @ [Exec (FindTree containerId ''/root'')]\<rparr>)
                  containerId ''/root/a'')
      \<and> \<not> fst (getFileStat w (s\<lparr>events := events s @ [Exec (FindTree containerId ''/root''),
                  Exec (Stat containerId ''/root/a'')]\<rparr>) containerId ''/root/a/b.txt'')
      \<and> fst (getFileStat w (s\<lparr>events := events s @ [Exec (FindTree containerId ''/root''),
                  Exec (Stat containerId ''/root/a''), Exec (Stat containerId ''/root/a/b.txt'')]\<rparr>)
                  containerId ''/root/c'')"
  then show "fst (getFileTree w s containerId ''/root'')
          = Inr [FileItem ''a'' ''/root/a'' Directory
                   (Some [FileItem ''b.txt'' ''/root/a/b.txt'' File None None]) None,
                 FileItem ''c'' ''/root/c'' Directory (Some []) None]"
    using example_tree [of w s containerId out] by blast
next
  assume h: "sorted paths
      \<and> (\<forall>p \<in> set paths. parentKey containerPath p = containerPath
                            \<or> parentKey containerPath p \<in> set paths)
      \<and> i < length paths"
  obtain s' h' ft' where run: "fold (getFileTree_step w containerId containerPath) (take i paths)
                 (s, [rootItem containerPath], [(containerPath, 0)]) = (s', h', ft')"
    by (cases "fold (getFileTree_step w containerId containerPath) (take i paths)
                 (s, [rootItem containerPath], [(containerPath, 0)])")
  from h have "map_of ft' (parentKey containerPath (paths ! i)) \<noteq> None"
    using parent_present [OF _ _ _ run] by blast
  with run show "case fold (getFileTree_step w containerId containerPath) (take i paths)
                 (s, [rootItem containerPath], [(containerPath, 0)]) of
            (s', h', fileTree') \<Rightarrow> map_of fileTree' (parentKey containerPath (paths ! i)) \<noteq> None"
    by simp
qed

lemma demo_sorted: "sorted [''/root/a'', ''/root/a/b.txt'', ''/root/c'']"
  by (simp add: list_le_def less_char_def)

lemma demo_paths: "listedPaths ''/root'' demoListing = [''/root/a'', ''/root/a/b.txt'', ''/root/c'']"
  by (simp add: listedPaths_def demoListing_def trim_def isWhiteSpace_def)

theorem getFileTree_parent_first_witness:
  "fst (getFileTree demoWorld freshState ''c_run'' ''/root'')
          = Inr [FileItem ''a'' ''/root/a'' Directory
                   (Some [FileItem ''b.txt'' ''/root/a/b.txt'' File None None]) None,
                 FileItem ''c'' ''/root/c'' Directory (Some []) None]
   \<and> sorted [''/root/a'', ''/root/a/b.txt'', ''/root/c'']
   \<and> parentKey ''/root'' ''/root/a'' = ''/root''
   \<and> parentKey ''/root'' ''/root/a/b.txt'' = ''/root/a''
   \<and> parentKey ''/root'' ''/root/c'' = ''/root''
   \<and> map_of (snd (snd (fold (getFileTree_step demoWorld ''c_run'' ''/root'') [''/root/a'']
                 (freshState\<lparr>events := [Exec (FindTree ''c_run'' ''/root'')]\<rparr>,
                  [rootItem ''/root''], [(''/root'', 0)])))) ''/root/a'' \<noteq> None"
proof -
  let ?paths = "[''/root/a'', ''/root/a/b.txt'', ''/root/c'']"
  have pk: "parentKey ''/root'' ''/root/a'' = ''/root''"
    "parentKey ''/root'' ''/root/a/b.txt'' = ''/root/a''"
    "parentKey ''/root'' ''/root/c'' = ''/root''"
    by (simp_all add: parentKey_def substring0_def)
  have closed: "\<forall>p \<in> set ?paths. parentKey ''/root'' p = ''/root'' \<or> parentKey ''/root'' p \<in> set ?paths"
    using pk by simp
  have stats: "fst (getFileStat demoWorld (freshState\<lparr>events := events freshState @ [Exec (FindTree ''c_run'' ''/root'')]\<rparr>)
                  ''c_run'' ''/root/a'')"
    "\<not> fst (getFileStat demoWorld (freshState\<lparr>events := events freshState @ [Exec (FindTree ''c_run'' ''/root''),
                  Exec (Stat ''c_run'' ''/root/a'')]\<rparr>) ''c_run'' ''/root/a/b.txt'')"
    "fst (getFileStat demoWorld (freshState\<lparr>events := events freshState @ [Exec (FindTree ''c_run'' ''/root''),
                  Exec (Stat ''c_run'' ''/root/a''), Exec (Stat ''c_run'' ''/root/a/b.txt'')]\<rparr>)
                  ''c_run'' ''/root/c'')"
    by (simp_all add: getFileStat_def execInContainer_def execAsync_def demoWorld_def trim_def
        isWhiteSpace_def)
  have find: "exec demoWorld (events freshState) (FindTree ''c_run'' ''/root'') = Inr demoListing"
    by (simp add: demoWorld_def)
  note inst = getFileTree_parent_first [of demoWorld freshState "''c_run''" demoListing ?paths "''/root''" 1]
  from inst find demo_paths stats have tree: "fst (getFileTree demoWorld freshState ''c_run'' ''/root'')
          = Inr [FileItem ''a'' ''/root/a'' Directory
                   (Some [FileItem ''b.txt'' ''/root/a/b.txt'' File None None]) None,
                 FileItem ''c'' ''/root/c'' Directory (Some []) None]"
    by blast
  from getFileTree_parent_first [of demoWorld "freshState\<lparr>events := [Exec (FindTree ''c_run'' ''/root'')]\<rparr>"
      "''c_run''" demoListing ?paths "''/root''" 1] demo_sorted closed
  have "case fold (getFileTree_step demoWorld ''c_run'' ''/root'') (take 1 ?paths)
                 (freshState\<lparr>events := [Exec (FindTree ''c_run'' ''/root'')]\<rparr>,
                  [rootItem ''/root''], [(''/root'', 0)]) of
            (s', h', fileTree') \<Rightarrow> map_of fileTree' (parentKey ''/root'' (?paths ! 1)) \<noteq> None"
    by simp
  then have "map_of (snd (snd (fold (getFileTree_step demoWorld ''c_run'' ''/root'') [''/root/a'']
                 (freshState\<lparr>events := [Exec (FindTree ''c_run'' ''/root'')]\<rparr>,
                  [rootItem ''/root''], [(''/root'', 0)])))) ''/root/a'' \<noteq> None"
    by (simp add: pk split: prod.splits)
  with tree demo_sorted pk show ?thesis by simp
qed

section \<open>Properties of \<open>writeFile\<close>\<close>

lemma copyIntoContainer_cases:
  "copyIntoContainer w s tempFile containerId absolutePath =
     (let cp = PodmanCp tempFile containerId absolutePath;
          mk = Mkdir containerId (substring0 absolutePath (lastIndexOf CHR ''/'' absolutePath));
          copied1 = resolved (exec w (events s) cp);
          made = resolved (exec w (events s @ [Exec cp]) mk);
          copied2 = resolved (exec w (events s @ [Exec cp, Exec mk]) cp)
      in if copied1 then (Inr (), s\<lparr>events := events s @ [Exec cp]\<rparr>)
         else if \<not> made then (Inl (projl (exec w (events s @ [Exec cp]) mk)),
                                s\<lparr>events := events s @ [Exec cp, Exec mk]\<rparr>)
         else if copied2 then (Inr (), s\<lparr>events := events s @ [Exec cp, Exec mk, Exec cp]\<rparr>)
         else (Inl (projl (exec w (events s @ [Exec cp, Exec mk]) cp)),
               s\<lparr>events := events s @ [Exec cp, Exec mk, Exec cp]\<rparr>))"
  by (simp add: copyIntoContainer_def execAsync_def resolved_def Let_def split: sum.splits)

lemma copyIntoContainer_trace:
  assumes "copyIntoContainer w s tempFile containerId absolutePath = (x, s1)"
  shows "let cp = PodmanCp tempFile containerId absolutePath;
             mk = Mkdir containerId (substring0 absolutePath (lastIndexOf CHR ''/'' absolutePath));
             copied1 = resolved (exec w (events s) cp);
             made = resolved (exec w (events s @ [Exec cp]) mk);
             copied2 = resolved (exec w (events s @ [Exec cp, Exec mk]) cp)
         in events s1 = events s @ (if copied1 then [Exec cp] else if made then [Exec cp, Exec mk, Exec cp]
                                    else [Exec cp, Exec mk])
          \<and> usedPorts s1 = usedPorts s
          \<and> (isl x \<longleftrightarrow> \<not> (copied1 \<or> made \<and> copied2))"
  using assms unfolding copyIntoContainer_cases
  by (auto simp: Let_def split: if_splits)

lemma writeFile_try_trace:
  assumes "writeFile_try w s tempFile containerId filePath content' = (x, s1)"
  shows "let absolutePath = getAbsolutePath filePath;
             wr = FsWriteFile tempFile content';
             cp = PodmanCp tempFile containerId absolutePath;
             mk = Mkdir containerId (substring0 absolutePath (lastIndexOf CHR ''/'' absolutePath));
             vf = Head5 containerId absolutePath;
             ul = FsUnlink tempFile;
             written = resolved (exec w (events s) wr);
             copied1 = resolved (exec w (events s @ [Exec wr]) cp);
             made = resolved (exec w (events s @ [Exec wr, Exec cp]) mk);
             copied2 = resolved (exec w (events s @ [Exec wr, Exec cp, Exec mk]) cp);
             copying = (if copied1 then [Exec cp] else if made then [Exec cp, Exec mk, Exec cp]
                        else [Exec cp, Exec mk]);
             copied = (copied1 \<or> made \<and> copied2);
             unlinked = resolved (exec w (events s @ [Exec wr] @ copying @ [Exec vf]) ul)
         in events s1 = events s @ [Exec wr]
              @ (if written then copying @ (if copied then [Exec vf, Exec ul] else []) else [])
          \<and> (isl x \<longleftrightarrow> \<not> (written \<and> copied \<and> unlinked))
          \<and> usedPorts s1 = usedPorts s"
proof (cases "exec w (events s) (FsWriteFile tempFile content')")
  case (Inl e)
  with assms show ?thesis
    by (auto simp: writeFile_try_def execAsync_def resolved_def Let_def)
next
  case (Inr out)
  define sw where "sw = s\<lparr>events := events s @ [Exec (FsWriteFile tempFile content')]\<rparr>"
  obtain y sc where cp: "copyIntoContainer w sw tempFile containerId (getAbsolutePath filePath) = (y, sc)"
    by (cases "copyIntoContainer w sw tempFile containerId (getAbsolutePath filePath)")
  note tr = copyIntoContainer_trace [OF cp, unfolded Let_def]
  have sw: "events sw = events s @ [Exec (FsWriteFile tempFile content')]" "usedPorts sw = usedPorts s"
    by (simp_all add: sw_def)
  show ?thesis
  proof (cases y)
    case yl: (Inl e)
    with assms Inr cp have "x = Inl e" "s1 = sc"
      by (simp_all add: writeFile_try_def execAsync_def Let_def sw_def)
    with tr yl Inr sw show ?thesis
      by (simp add: Let_def resolved_def split: if_splits)
  next
    case yr: (Inr u)
    define sv where "sv = sc\<lparr>events := events sc @ [Exec (Head5 containerId (getAbsolutePath filePath))]\<rparr>"
    have run: "(x, s1) = (case exec w (events sv) (FsUnlink tempFile) of
          Inl e \<Rightarrow> (Inl e, sv\<lparr>events := events sv @ [Exec (FsUnlink tempFile)]\<rparr>)
        | Inr out' \<Rightarrow> (Inr (), sv\<lparr>events := events sv @ [Exec (FsUnlink tempFile)]\<rparr>))"
      using assms Inr cp yr
      by (simp add: writeFile_try_def execAsync_def Let_def sw_def sv_def split: sum.splits)
    have sv: "events sv = events sc @ [Exec (Head5 containerId (getAbsolutePath filePath))]"
      "usedPorts sv = usedPorts sc"
      by (simp_all add: sv_def)
    show ?thesis
    proof (cases "exec w (events sv) (FsUnlink tempFile)")
      case ul: (Inl e)
      with run have "x = Inl e" "s1 = sv\<lparr>events := events sv @ [Exec (FsUnlink tempFile)]\<rparr>"
        by simp_all
      with tr yr Inr sw sv ul show ?thesis
        by (simp add: Let_def resolved_def split: if_splits)
    next
      case ur: (Inr out')
      with run have "x = Inr ()" "s1 = sv\<lparr>events := events sv @ [Exec (FsUnlink tempFile)]\<rparr>"
        by simp_all
      with tr yr Inr sw sv ur show ?thesis
        by (simp add: Let_def resolved_def split: if_splits)
    qed
  qed
qed

text \<open>
  Claim C8. The trace of every run of \<open>writeFile\<close>: the temporary file is written;
  the copy is tried, and when it fails the directory is made with \<open>mkdir -p\<close> and the
  copy is tried once more, never a third time; after a copy that succeeded come the
  verification read and \<open>fs.unlink\<close>; on every path on which something failed
  (the write of the temporary file, \<open>mkdir\<close>, the second copy, the unlink itself) the
  catch block attempts \<open>fs.unlink\<close> as the last action. So every run ends with an
  \<open>fs.unlink\<close> of the temporary file, and a run that succeeds has removed it. The
  call succeeds exactly when the temporary file was written, one of the copies succeeded
  and the unlink succeeded: the answer to the verification read has no part in it.
\<close>

theorem writeFile_trace:
  assumes run: "writeFile w s uuid containerId filePath content' = (r, s')"
  shows "let tempFile = ''/tmp/file-'' @ uuid;
             absolutePath = getAbsolutePath filePath;
             wr = FsWriteFile tempFile content';
             cp = PodmanCp tempFile containerId absolutePath;
             mk = Mkdir containerId (substring0 absolutePath (lastIndexOf CHR ''/'' absolutePath));
             vf = Head5 containerId absolutePath;
             ul = FsUnlink tempFile;
             written = resolved (exec w (events s) wr);
             copied1 = resolved (exec w (events s @ [Exec wr]) cp);
             made = resolved (exec w (events s @ [Exec wr, Exec cp]) mk);
             copied2 = resolved (exec w (events s @ [Exec wr, Exec cp, Exec mk]) cp);
             copying = (if copied1 then [Exec cp] else if made then [Exec cp, Exec mk, Exec cp]
                        else [Exec cp, Exec mk]);
             copied = (copied1 \<or> made \<and> copied2);
             unlinked = resolved (exec w (events s @ [Exec wr] @ copying @ [Exec vf]) ul)
         in events s' = events s @ [Exec wr]
              @ (if written then
                   copying @ (if copied then [Exec vf, Exec ul] @ (if unlinked then [] else [Exec ul])
                              else [Exec ul])
                 else [Exec ul])
          \<and> (r = Inr () \<longleftrightarrow> written \<and> copied \<and> unlinked)
          \<and> usedPorts s' = usedPorts s"
proof -
  obtain x s1 where body: "writeFile_try w s (''/tmp/file-'' @ uuid) containerId filePath content' = (x, s1)"
    by (cases "writeFile_try w s (''/tmp/file-'' @ uuid) containerId filePath content'")
  note tr = writeFile_try_trace [OF body, unfolded Let_def]
  show ?thesis
  proof (cases x)
    case (Inl e)
    with run body have "r = Inl e" "s' = s1\<lparr>events := events s1 @ [Exec (FsUnlink (''/tmp/file-'' @ uuid))]\<rparr>"
      by (simp_all add: writeFile_def execAsync_def Let_def)
    with tr Inl show ?thesis
      by (simp add: Let_def split: if_splits)
  next
    case (Inr u)
    with run body have "r = Inr ()" "s' = s1"
      by (simp_all add: writeFile_def Let_def)
    with tr Inr show ?thesis
      by (simp add: Let_def split: if_splits)
  qed
qed

theorem writeFile_trace_witness:
  "fst (writeFile demoWorld freshState ''1234'' ''c_run'' ''src/app/page.tsx'' ''export default 1'') = Inr ()
   \<and> events (snd (writeFile demoWorld freshState ''1234'' ''c_run'' ''src/app/page.tsx'' ''export default 1''))
     = [Exec (FsWriteFile ''/tmp/file-1234'' ''export default 1''),
        Exec (PodmanCp ''/tmp/file-1234'' ''c_run'' ''/app/my-nextjs-app/src/app/page.tsx''),
        Exec (Mkdir ''c_run'' ''/app/my-nextjs-app/src/app''),
        Exec (PodmanCp ''/tmp/file-1234'' ''c_run'' ''/app/my-nextjs-app/src/app/page.tsx''),
        Exec (Head5 ''c_run'' ''/app/my-nextjs-app/src/app/page.tsx''),
        Exec (FsUnlink ''/tmp/file-1234'')]
   \<and> \<not> resolved (exec demoWorld
         [Exec (FsWriteFile ''/tmp/file-1234'' ''export default 1''),
          Exec (PodmanCp ''/tmp/file-1234'' ''c_run'' ''/app/my-nextjs-app/src/app/page.tsx''),
          Exec (Mkdir ''c_run'' ''/app/my-nextjs-app/src/app''),
          Exec (PodmanCp ''/tmp/file-1234'' ''c_run'' ''/app/my-nextjs-app/src/app/page.tsx'')]
         (Head5 ''c_run'' ''/app/my-nextjs-app/src/app/page.tsx''))"
proof -
  have target: "getAbsolutePath ''src/app/page.tsx'' = ''/app/my-nextjs-app/src/app/page.tsx''"
    by (simp add: getAbsolutePath_def BASE_PATH_def)
  from writeFile_trace [where w = demoWorld and s = freshState and uuid = "''1234''"
      and containerId = "''c_run''" and filePath = "''src/app/page.tsx''"
      and content' = "''export default 1''", OF surjective_pairing]
  show ?thesis
    by (simp add: Let_def target substring0_def resolved_def demoWorld_def freshState_def)
qed

section \<open>Properties of the content traversal\<close>

lemma readOne_eq:
  "readOne w containerId p s =
     ((p, case exec w (events s) (Cat containerId p) of
            Inl e \<Rightarrow> ''Error reading file: '' @ message e
          | Inr output \<Rightarrow> stripBOM output),
      s\<lparr>events := events s @ [Exec (Cat containerId p)]\<rparr>)"
  by (simp add: readOne_def readFile_def execInContainer_def execAsync_def split: sum.splits)

lemma readBatch_Cons:
  "readBatch w containerId (p # ps) s =
     (fst (readOne w containerId p s)
        # fst (readBatch w containerId ps (snd (readOne w containerId p s))),
      snd (readBatch w containerId ps (snd (readOne w containerId p s))))"
  by (simp add: split_beta)

lemma readBatch_state:
  "snd (readBatch w containerId ps s)
     = s\<lparr>events := events s @ map (\<lambda>p. Exec (Cat containerId p)) ps\<rparr>"
proof (induction ps arbitrary: s)
  case Nil
  then show ?case by simp
next
  case (Cons p ps)
  show ?case
    unfolding readBatch_Cons Cons.IH by (simp add: readOne_eq)
qed

lemma readBatch_keys: "map fst (fst (readBatch w containerId ps s)) = ps"
proof (induction ps arbitrary: s)
  case Nil
  then show ?case by simp
next
  case (Cons p ps)
  show ?case
    unfolding readBatch_Cons by (simp add: Cons.IH readOne_eq)
qed

lemma readBatch_nth:
  "k < length ps \<Longrightarrow>
   fst (readBatch w containerId ps s) ! k =
     (ps ! k, case exec w (events s @ map (\<lambda>p. Exec (Cat containerId p)) (take k ps))
                     (Cat containerId (ps ! k)) of
                Inl e \<Rightarrow> ''Error reading file: '' @ message e
              | Inr output \<Rightarrow> stripBOM output)"
proof (induction ps arbitrary: s k)
  case Nil
  then show ?case by simp
next
  case (Cons p ps)
  show ?case
  proof (cases k)
    case 0
    then show ?thesis
      unfolding readBatch_Cons by (simp add: readOne_eq)
  next
    case (Suc j)
    with Cons.prems have j: "j < length ps" by simp
    from Cons.IH [OF j, of "s\<lparr>events := events s @ [Exec (Cat containerId p)]\<rparr>"] Suc
    show ?thesis
      unfolding readBatch_Cons by (simp add: readOne_eq)
  qed
qed

lemma readBatch_append:
  "readBatch w containerId (xs @ ys) s =
     (fst (readBatch w containerId xs s) @ fst (readBatch w containerId ys (snd (readBatch w containerId xs s))),
      snd (readBatch w containerId ys (snd (readBatch w containerId xs s))))"
proof (induction xs arbitrary: s)
  case Nil
  then show ?case by simp
next
  case (Cons x xs)
  show ?case
    unfolding append_Cons readBatch_Cons Cons.IH by simp
qed

lemma setAll_append: "setAll (xs @ ys) results = setAll ys (setAll xs results)"
  by (simp add: setAll_def)

lemma readFilesBatch_loop_eq:
  "readFilesBatch_loop w containerId ps i results s =
     (setAll (fst (readBatch w containerId (drop i ps) s)) results,
      snd (readBatch w containerId (drop i ps) s))"
proof (induction w containerId ps i results s rule: readFilesBatch_loop.induct)
  case (1 w containerId ps i results s)
  show ?case
  proof (cases "i < length ps")
    case False
    then show ?thesis
      by (simp add: readFilesBatch_loop.simps [of w containerId ps i] setAll_def)
  next
    case True
    obtain rs s1 where batch: "readBatch w containerId (take batchSize (drop i ps)) s = (rs, s1)"
      by (cases "readBatch w containerId (take batchSize (drop i ps)) s")
    have split: "drop i ps = take batchSize (drop i ps) @ drop (i + batchSize) ps"
      by (metis append_take_drop_id drop_drop add.commute)
    have "readFilesBatch_loop w containerId ps i results s
        = readFilesBatch_loop w containerId ps (i + batchSize) (setAll rs results) s1"
      using True batch by (simp add: readFilesBatch_loop.simps [of w containerId ps i])
    also have "\<dots> = (setAll (fst (readBatch w containerId (drop (i + batchSize) ps) s1)) (setAll rs results),
                       snd (readBatch w containerId (drop (i + batchSize) ps) s1))"
      using "1.IH" [OF True refl batch [symmetric]] by simp
    also have "\<dots> = (setAll (fst (readBatch w containerId (drop i ps) s)) results,
                       snd (readBatch w containerId (drop i ps) s))"
      using batch readBatch_append [of w containerId "take batchSize (drop i ps)" "drop (i + batchSize) ps" s]
      by (simp add: split [symmetric] setAll_append)
    finally show ?thesis .
  qed
qed

lemma readFilesBatch_eq:
  "readFilesBatch w s containerId ps =
     (setAll (fst (readBatch w containerId ps s)) [], snd (readBatch w containerId ps s))"
  by (simp add: readFilesBatch_def readFilesBatch_loop_eq)

lemma map_of_setAll:
  "distinct (map fst rs) \<Longrightarrow>
   map_of (setAll rs al) k = (case map_of rs k of None \<Rightarrow> map_of al k | Some v \<Rightarrow> Some v)"
proof (induction rs arbitrary: al)
  case Nil
  then show ?case by (simp add: setAll_def)
next
  case (Cons r rs)
  obtain p c where r: "r = (p, c)" by (cases r)
  from Cons.prems r have notin: "p \<notin> fst ` set rs" and d: "distinct (map fst rs)"
    by auto
  have "setAll (r # rs) al = setAll rs (AList.update p c al)"
    by (simp add: setAll_def r)
  moreover have "map_of rs p = None"
    using notin by (simp add: map_of_eq_None_iff)
  ultimately show ?case
    using Cons.IH [OF d, of "AList.update p c al"] r
    by (simp add: update_conv' split: option.splits)
qed

lemma setAll_keys: "fst ` set (setAll rs al) = fst ` set al \<union> fst ` set rs"
proof (induction rs arbitrary: al)
  case Nil
  then show ?case by (simp add: setAll_def)
next
  case (Cons r rs)
  have "setAll (r # rs) al = setAll rs (AList.update (fst r) (snd r) al)"
    by (simp add: setAll_def split: prod.splits)
  with Cons.IH [of "AList.update (fst r) (snd r) al"] show ?case
    by (auto simp: dom_update)
qed

lemma setAll_distinct: "distinct (map fst al) \<Longrightarrow> distinct (map fst (setAll rs al))"
proof (induction rs arbitrary: al)
  case Nil
  then show ?case by (simp add: setAll_def)
next
  case (Cons r rs)
  have "setAll (r # rs) al = setAll rs (AList.update (fst r) (snd r) al)"
    by (simp add: setAll_def split: prod.splits)
  with Cons.IH [of "AList.update (fst r) (snd r) al"] Cons.prems show ?case
    by (simp add: distinct_update)
qed

lemma readFilesBatch_content:
  assumes d: "distinct ps" and k: "k < length ps"
  shows "map_of (fst (readFilesBatch w s containerId ps)) (ps ! k)
      = Some (case exec w (events s @ map (\<lambda>p. Exec (Cat containerId p)) (take k ps))
                     (Cat containerId (ps ! k)) of
                Inl e \<Rightarrow> ''Error reading file: '' @ message e
              | Inr output \<Rightarrow> stripBOM output)"
proof -
  let ?rs = "fst (readBatch w containerId ps s)"
  have keys: "map fst ?rs = ps" by (rule readBatch_keys)
  with d have drs: "distinct (map fst ?rs)" by simp
  have len: "length ?rs = length ps"
    using keys by (metis length_map)
  have "?rs ! k \<in> set ?rs"
    using k len by simp
  then have "map_of ?rs (fst (?rs ! k)) = Some (snd (?rs ! k))"
    using drs by simp
  then have "map_of ?rs (ps ! k) = Some (snd (?rs ! k))"
    using readBatch_nth [OF k, of w containerId s] by simp
  then show ?thesis
    using map_of_setAll [OF drs, of "[]" "ps ! k"] readBatch_nth [OF k, of w containerId s]
    by (simp add: readFilesBatch_eq)
qed

lemma content_step_inv:
  assumes inv: "contentInv containerPath acc"
    and fresh: "p \<notin> fst ` set (pathToItemMap acc)"
  shows "contentInv containerPath (getFileContentTree_step w containerId containerPath p acc)"
proof -
  obtain b s' where stat: "getFileStat w (st acc) containerId p = (b, s')"
    by (cases "getFileStat w (st acc) containerId p")
  define acc' where "acc' = getFileContentTree_step w containerId containerPath p acc"
  have objs': "objs acc' = objs acc @ [newItem containerPath p b]"
    and pm': "pathToItemMap acc' = AList.update p (length (objs acc)) (pathToItemMap acc)"
    and files': "filesToRead acc' = (if b then filesToRead acc else filesToRead acc @ [p])"
    using stat by (simp_all add: acc'_def getFileContentTree_step_def)
  from inv have i1: "\<And>q a. map_of (pathToItemMap acc) q = Some a \<Longrightarrow>
        a < length (objs acc) \<and> path (objs acc ! a) = q \<and> name (objs acc ! a) = fileNameOf containerPath q"
    and i2: "\<And>q. q \<in> set (filesToRead acc) \<Longrightarrow> \<exists>a. map_of (pathToItemMap acc) q = Some a
        \<and> ftype (objs acc ! a) = File \<and> children (objs acc ! a) = None"
    and i3: "distinct (filesToRead acc)"
    and i4: "set (filesToRead acc) \<subseteq> fst ` set (pathToItemMap acc)"
    by (auto simp: contentInv_def)
  from fresh i4 have pnew: "p \<notin> set (filesToRead acc)" by auto
  have c1: "a < length (objs acc') \<and> path (objs acc' ! a) = q
        \<and> name (objs acc' ! a) = fileNameOf containerPath q"
    if "map_of (pathToItemMap acc') q = Some a" for q a
  proof (cases "q = p")
    case True
    with that have "a = length (objs acc)" by (simp add: pm' update_conv')
    with True show ?thesis by (simp add: objs' newItem_def)
  next
    case False
    with that have "map_of (pathToItemMap acc) q = Some a" by (simp add: pm' update_conv')
    from i1 [OF this] show ?thesis by (simp add: objs' nth_append)
  qed
  have c2: "\<exists>a. map_of (pathToItemMap acc') q = Some a
        \<and> ftype (objs acc' ! a) = File \<and> children (objs acc' ! a) = None"
    if "q \<in> set (filesToRead acc')" for q
  proof (cases "q = p")
    case True
    with that pnew have "\<not> b" by (auto simp: files' split: if_splits)
    with True show ?thesis by (simp add: pm' update_conv' objs' newItem_def)
  next
    case False
    with that have "q \<in> set (filesToRead acc)" by (auto simp: files' split: if_splits)
    from i2 [OF this] obtain a where a: "map_of (pathToItemMap acc) q = Some a"
        "ftype (objs acc ! a) = File" "children (objs acc ! a) = None"
      by blast
    with i1 [OF a(1)] False show ?thesis
      by (simp add: pm' update_conv' objs' nth_append)
  qed
  have c3: "distinct (filesToRead acc')"
    using i3 pnew by (simp add: files')
  have c4: "set (filesToRead acc') \<subseteq> fst ` set (pathToItemMap acc')"
    using i4 by (auto simp: files' pm' dom_update)
  from c1 c2 c3 c4 show ?thesis
    unfolding acc'_def [symmetric] contentInv_def by blast
qed

lemma content_step_keys:
  "fst ` set (pathToItemMap (getFileContentTree_step w containerId containerPath p acc))
     = insert p (fst ` set (pathToItemMap acc))"
  by (simp add: getFileContentTree_step_def dom_update split: prod.splits)

lemma content_fold_inv:
  assumes "contentInv containerPath acc"
    and "distinct ps"
    and "set ps \<inter> fst ` set (pathToItemMap acc) = {}"
  shows "contentInv containerPath (fold (getFileContentTree_step w containerId containerPath) ps acc)"
  using assms
proof (induction ps arbitrary: acc)
  case Nil
  then show ?case by simp
next
  case (Cons p ps)
  have step: "contentInv containerPath (getFileContentTree_step w containerId containerPath p acc)"
    using Cons.prems by (intro content_step_inv) auto
  have "set ps \<inter> fst ` set (pathToItemMap (getFileContentTree_step w containerId containerPath p acc)) = {}"
    using Cons.prems by (auto simp: content_step_keys)
  with Cons.IH [OF step] Cons.prems show ?case by simp
qed

lemma nth_list_update_field:
  assumes "f y = f (xs ! i)"
  shows "f (xs[i := y] ! j) = f (xs ! j)"
  by (cases "i < length xs") (auto simp: nth_list_update list_update_beyond assms)

lemma setContent_frame:
  "length (setContent pm entry h) = length h"
  "path (setContent pm entry h ! a) = path (h ! a)"
  "name (setContent pm entry h ! a) = name (h ! a)"
  "ftype (setContent pm entry h ! a) = ftype (h ! a)"
  "children (setContent pm entry h ! a) = children (h ! a)"
  by (auto simp: setContent_def nth_list_update_field split: option.splits)

lemma fold_setContent:
  assumes "\<forall>q b. map_of pm q = Some b \<longrightarrow> b < length h \<and> path (h ! b) = q"
    and "distinct (map fst fc)"
    and "map_of pm p = Some a"
  shows "length (fold (setContent pm) fc h) = length h
       \<and> path (fold (setContent pm) fc h ! a) = path (h ! a)
       \<and> name (fold (setContent pm) fc h ! a) = name (h ! a)
       \<and> ftype (fold (setContent pm) fc h ! a) = ftype (h ! a)
       \<and> children (fold (setContent pm) fc h ! a) = children (h ! a)
       \<and> content (fold (setContent pm) fc h ! a)
           = (case map_of fc p of Some c \<Rightarrow> Some c | None \<Rightarrow> content (h ! a))"
  using assms
proof (induction fc arbitrary: h)
  case Nil
  then show ?case by simp
next
  case (Cons entry fc)
  obtain q c where entry: "entry = (q, c)" by (cases entry)
  let ?h = "setContent pm entry h"
  have inv: "\<forall>q b. map_of pm q = Some b \<longrightarrow> b < length ?h \<and> path (?h ! b) = q"
    using Cons.prems(1) by (simp add: setContent_frame)
  from Cons.prems have d: "distinct (map fst fc)" and qfc: "q \<notin> fst ` set fc"
    by (auto simp: entry)
  note ih = Cons.IH [OF inv d Cons.prems(3)]
  from Cons.prems(1,3) have a: "a < length h" "path (h ! a) = p" by auto
  have cont: "content (?h ! a) = (if q = p then Some c else content (h ! a))"
  proof (cases "map_of pm q")
    case None
    with Cons.prems(3) show ?thesis by (auto simp: setContent_def entry)
  next
    case (Some b)
    with Cons.prems(1) have b: "b < length h" "path (h ! b) = q" by auto
    show ?thesis
    proof (cases "q = p")
      case True
      with Some Cons.prems(3) have "b = a" by simp
      with Some a True show ?thesis by (simp add: setContent_def entry)
    next
      case False
      with a b have "b \<noteq> a" by auto
      with Some False show ?thesis by (simp add: setContent_def entry)
    qed
  qed
  show ?case
  proof (cases "q = p")
    case True
    then have "map_of fc p = None"
      using qfc by (simp add: map_of_eq_None_iff)
    with True ih [unfolded entry] cont [unfolded entry] show ?thesis
      unfolding entry by (simp add: setContent_frame)
  next
    case False
    with ih [unfolded entry] cont [unfolded entry] show ?thesis
      unfolding entry by (simp add: setContent_frame split: option.splits)
  qed
qed

lemma attach_children_None:
  assumes "children (h ! a) = None"
  shows "children (attach containerPath ft h b ! a) = None"
proof (cases "map_of ft (parentKey containerPath (path (h ! b)))")
  case None
  with assms show ?thesis by (simp add: attach_def)
next
  case (Some parent)
  show ?thesis
  proof (cases "children (h ! parent)")
    case None
    with Some assms show ?thesis by (simp add: attach_def)
  next
    case (Some cs)
    with assms have "parent \<noteq> a" by auto
    with Some \<open>map_of ft (parentKey containerPath (path (h ! b))) = Some parent\<close> assms
    show ?thesis by (simp add: attach_def)
  qed
qed

lemma attach_frame:
  "length (attach containerPath ft h b) = length h"
  "path (attach containerPath ft h b ! a) = path (h ! a)"
  "name (attach containerPath ft h b ! a) = name (h ! a)"
  "ftype (attach containerPath ft h b ! a) = ftype (h ! a)"
  "content (attach containerPath ft h b ! a) = content (h ! a)"
  by (auto simp: attach_def nth_list_update_field split: option.splits)

lemma fold_attach_frame:
  "length (fold (\<lambda>b h. attach containerPath ft h b) bs h) = length h
   \<and> path (fold (\<lambda>b h. attach containerPath ft h b) bs h ! a) = path (h ! a)
   \<and> name (fold (\<lambda>b h. attach containerPath ft h b) bs h ! a) = name (h ! a)
   \<and> ftype (fold (\<lambda>b h. attach containerPath ft h b) bs h ! a) = ftype (h ! a)
   \<and> content (fold (\<lambda>b h. attach containerPath ft h b) bs h ! a) = content (h ! a)
   \<and> (children (h ! a) = None \<longrightarrow> children (fold (\<lambda>b h. attach containerPath ft h b) bs h ! a) = None)"
proof (induction bs arbitrary: h)
  case Nil
  then show ?case by simp
next
  case (Cons b bs)
  from Cons.IH [of "attach containerPath ft h b"] show ?case
    by (simp add: attach_frame attach_children_None)
qed

lemma resolve_file:
  assumes "a < length h" and "children (h ! a) = None"
  shows "resolve h a = Some (FileItem (name (h ! a)) (path (h ! a)) (ftype (h ! a)) None (content (h ! a)))"
proof -
  from assms(1) obtain n where "length h = Suc n"
    by (cases "length h") auto
  with assms show ?thesis
    by (simp add: resolve_def)
qed

lemma loops_content:
  assumes d: "distinct paths"
    and run: "getFileContentTree_loops w s containerId containerPath paths = ((h2, acc), s2)"
    and k: "k < length (filesToRead acc)"
  shows "\<exists>a. map_of (pathToItemMap acc) (filesToRead acc ! k) = Some a
           \<and> resolve h2 a = Some (FileItem (fileNameOf containerPath (filesToRead acc ! k))
                 (filesToRead acc ! k) File None
                 (Some (case exec w (events (st acc)
                                      @ map (\<lambda>p. Exec (Cat containerId p)) (take k (filesToRead acc)))
                                  (Cat containerId (filesToRead acc ! k)) of
                          Inl e \<Rightarrow> ''Error reading file: '' @ message e
                        | Inr output \<Rightarrow> stripBOM output)))"
proof -
  define init where "init = \<lparr> st = s, objs = [rootItem containerPath],
      fileTree = [(containerPath, 0)], pathToItemMap = [], filesToRead = [] \<rparr>"
  define fc where "fc = fst (readFilesBatch w (st acc) containerId (filesToRead acc))"
  define h1 where "h1 = fold (setContent (pathToItemMap acc)) fc (objs acc)"
  have acc: "acc = fold (getFileContentTree_step w containerId containerPath) paths init"
    and h2: "h2 = fold (\<lambda>a h. attach containerPath (fileTree acc) h a) (map snd (pathToItemMap acc)) h1"
    using run
    by (auto simp: getFileContentTree_loops_def Let_def init_def h1_def fc_def split: prod.splits)
  have "contentInv containerPath init"
    by (simp add: contentInv_def init_def)
  then have inv: "contentInv containerPath acc"
    unfolding acc by (rule content_fold_inv) (simp_all add: d init_def)
  let ?p = "filesToRead acc ! k"
  from k have pin: "?p \<in> set (filesToRead acc)" by simp
  from inv pin obtain a where a: "map_of (pathToItemMap acc) ?p = Some a"
      "ftype (objs acc ! a) = File" "children (objs acc ! a) = None"
    unfolding contentInv_def by blast
  from inv a(1) have a': "a < length (objs acc)" "path (objs acc ! a) = ?p"
      "name (objs acc ! a) = fileNameOf containerPath ?p"
    unfolding contentInv_def by blast+
  from inv have m: "\<forall>q b. map_of (pathToItemMap acc) q = Some b \<longrightarrow>
      b < length (objs acc) \<and> path (objs acc ! b) = q"
    and dfiles: "distinct (filesToRead acc)"
    unfolding contentInv_def by blast+
  have dfc: "distinct (map fst fc)"
    unfolding fc_def readFilesBatch_eq by (simp add: setAll_distinct)
  have read: "map_of fc ?p = Some (case exec w (events (st acc)
                                      @ map (\<lambda>p. Exec (Cat containerId p)) (take k (filesToRead acc)))
                                  (Cat containerId ?p) of
                          Inl e \<Rightarrow> ''Error reading file: '' @ message e
                        | Inr output \<Rightarrow> stripBOM output)"
    unfolding fc_def by (rule readFilesBatch_content [OF dfiles k])
  from fold_setContent [OF m dfc a(1)] read a a'
  have o1: "length h1 = length (objs acc)" "path (h1 ! a) = ?p"
      "name (h1 ! a) = fileNameOf containerPath ?p" "ftype (h1 ! a) = File"
      "children (h1 ! a) = None"
      "content (h1 ! a) = Some (case exec w (events (st acc)
                                      @ map (\<lambda>p. Exec (Cat containerId p)) (take k (filesToRead acc)))
                                  (Cat containerId ?p) of
                          Inl e \<Rightarrow> ''Error reading file: '' @ message e
                        | Inr output \<Rightarrow> stripBOM output)"
    by (simp_all add: h1_def)
  from fold_attach_frame [of containerPath "fileTree acc" "map snd (pathToItemMap acc)" h1 a] o1 a'(1)
  have o2: "a < length h2" "path (h2 ! a) = ?p"
      "name (h2 ! a) = fileNameOf containerPath ?p" "ftype (h2 ! a) = File"
      "children (h2 ! a) = None"
      "content (h2 ! a) = Some (case exec w (events (st acc)
                                      @ map (\<lambda>p. Exec (Cat containerId p)) (take k (filesToRead acc)))
                                  (Cat containerId ?p) of
                          Inl e \<Rightarrow> ''Error reading file: '' @ message e
                        | Inr output \<Rightarrow> stripBOM output)"
    by (simp_all add: h2)
  from resolve_file [OF o2(1) o2(5)] o2 a(1) show ?thesis
    by simp
qed

text \<open>
  Claim C7. Once the listing has succeeded, \<open>getFileContentTree\<close> has no failing
  outcome, whatever the reads of the files do. \<open>readFilesBatch\<close>, on a list of distinct
  paths, maps each path to what its own read gave: the text
  \<open>Error reading file: \<close> followed by the message of the error when the read was
  rejected, the output (without a leading byte order mark) otherwise; the reads are
  issued in the order of the list, and a rejected read changes nothing for the others.
  At the \<open>return\<close> of \<open>getFileContentTree\<close> (the listed paths being distinct) the
  object of every path that was queued for reading is a \<open>file\<close> node without
  \<open>children\<close> whose \<open>content\<close> is that text.
\<close>

theorem getFileContentTree_read_failures:
  "(exec w (events s) (FindContentTree containerId containerPath) = Inr out
      \<longrightarrow> (\<exists>forest s'. getFileContentTree w s containerId containerPath = (Inr forest, s')))
   \<and> (distinct ps \<and> k < length ps
      \<longrightarrow> map_of (fst (readFilesBatch w s containerId ps)) (ps ! k)
          = Some (case exec w (events s @ map (\<lambda>p. Exec (Cat containerId p)) (take k ps))
                         (Cat containerId (ps ! k)) of
                    Inl e \<Rightarrow> ''Error reading file: '' @ message e
                  | Inr output \<Rightarrow> stripBOM output))
   \<and> (distinct paths
      \<longrightarrow> (case getFileContentTree_loops w s containerId containerPath paths of
            ((h2, acc), s2) \<Rightarrow>
              \<forall>j < length (filesToRead acc).
                \<exists>a. map_of (pathToItemMap acc) (filesToRead acc ! j) = Some a
                  \<and> resolve h2 a
                      = Some (FileItem (fileNameOf containerPath (filesToRead acc ! j))
                          (filesToRead acc ! j) File None
                          (Some (case exec w (events (st acc)
                                     @ map (\<lambda>p. Exec (Cat containerId p)) (take j (filesToRead acc)))
                                   (Cat containerId (filesToRead acc ! j)) of
                               Inl e \<Rightarrow> ''Error reading file: '' @ message e
                             | Inr output \<Rightarrow> stripBOM output)))))"
proof (intro conjI impI)
  assume "exec w (events s) (FindContentTree containerId containerPath) = Inr out"
  then show "\<exists>forest s'. getFileContentTree w s containerId containerPath = (Inr forest, s')"
    by (simp add: getFileContentTree_def execInContainer_def execAsync_def split: prod.splits)
next
  assume "distinct ps \<and> k < length ps"
  then show "map_of (fst (readFilesBatch w s containerId ps)) (ps ! k)
          = Some (case exec w (events s @ map (\<lambda>p. Exec (Cat containerId p)) (take k ps))
                         (Cat containerId (ps ! k)) of
                    Inl e \<Rightarrow> ''Error reading file: '' @ message e
                  | Inr output \<Rightarrow> stripBOM output)"
    using readFilesBatch_content by blast
next
  assume d: "distinct paths"
  obtain h2 acc s2 where run: "getFileContentTree_loops w s containerId containerPath paths = ((h2, acc), s2)"
    by (metis surj_pair)
  show "case getFileContentTree_loops w s containerId containerPath paths of
            ((h2, acc), s2) \<Rightarrow>
              \<forall>j < length (filesToRead acc).
                \<exists>a. map_of (pathToItemMap acc) (filesToRead acc ! j) = Some a
                  \<and> resolve h2 a
                      = Some (FileItem (fileNameOf containerPath (filesToRead acc ! j))
                          (filesToRead acc ! j) File None
                          (Some (case exec w (events (st acc)
                                     @ map (\<lambda>p. Exec (Cat containerId p)) (take j (filesToRead acc)))
                                   (Cat containerId (filesToRead acc ! j)) of
                               Inl e \<Rightarrow> ''Error reading file: '' @ message e
                             | Inr output \<Rightarrow> stripBOM output)))"
    unfolding run using loops_content [OF d run] by simp
qed

theorem getFileContentTree_read_failures_witness:
  "getFileContentTree demoWorld freshState ''c_cat'' ''/root''
     = (Inr [FileItem ''a'' ''/root/a'' Directory
               (Some [FileItem ''b.txt'' ''/root/a/b.txt'' File None
                        (Some ''Error reading file: Command failed: cat'')]) None,
             FileItem ''c'' ''/root/c'' Directory (Some []) None],
        freshState\<lparr>events := [Exec (FindContentTree ''c_cat'' ''/root''),
           Exec (Stat ''c_cat'' ''/root/a''), Exec (Stat ''c_cat'' ''/root/a/b.txt''),
           Exec (Stat ''c_cat'' ''/root/c''), Exec (Cat ''c_cat'' ''/root/a/b.txt'')]\<rparr>)
   \<and> map_of (fst (readFilesBatch demoWorld freshState ''c_cat'' [''/root/a/b.txt'', ''/root/x''])) ''/root/x''
     = Some ''Error reading file: Command failed: cat''
   \<and> map_of (fst (readFilesBatch demoWorld freshState ''c_run'' [''/root/a/b.txt'', ''/root/x''])) ''/root/x''
     = Some ''hello''"
proof -
  define s0 where "s0 = freshState\<lparr>events := [Exec (FindContentTree ''c_cat'' ''/root'')]\<rparr>"
  define s2 where "s2 = freshState\<lparr>events := [Exec (FindContentTree ''c_cat'' ''/root''),
           Exec (Stat ''c_cat'' ''/root/a''), Exec (Stat ''c_cat'' ''/root/a/b.txt''),
           Exec (Stat ''c_cat'' ''/root/c''), Exec (Cat ''c_cat'' ''/root/a/b.txt'')]\<rparr>"
  define acc where "acc = \<lparr> st = freshState\<lparr>events := [Exec (FindContentTree ''c_cat'' ''/root''),
           Exec (Stat ''c_cat'' ''/root/a''), Exec (Stat ''c_cat'' ''/root/a/b.txt''),
           Exec (Stat ''c_cat'' ''/root/c'')]\<rparr>,
        objs = [rootItem ''/root'', newItem ''/root'' ''/root/a'' True,
                newItem ''/root'' ''/root/a/b.txt'' False, newItem ''/root'' ''/root/c'' True],
        fileTree = [(''/root'', 0), (''/root/a'', 1), (''/root/a/b.txt'', 2), (''/root/c'', 3)],
        pathToItemMap = [(''/root/a'', 1), (''/root/a/b.txt'', 2), (''/root/c'', 3)],
        filesToRead = [''/root/a/b.txt''] \<rparr>"
  define h1 where "h1 = [rootItem ''/root'', newItem ''/root'' ''/root/a'' True,
      (newItem ''/root'' ''/root/a/b.txt'' False)\<lparr>content := Some ''Error reading file: Command failed: cat''\<rparr>,
      newItem ''/root'' ''/root/c'' True]"
  define h2 where "h2 = [(rootItem ''/root'')\<lparr>children := Some [1, 3]\<rparr>,
      (newItem ''/root'' ''/root/a'' True)\<lparr>children := Some [2]\<rparr>,
      (newItem ''/root'' ''/root/a/b.txt'' False)\<lparr>content := Some ''Error reading file: Command failed: cat''\<rparr>,
      newItem ''/root'' ''/root/c'' True]"
  have paths: "listedPaths ''/root'' demoListing = [''/root/a'', ''/root/a/b.txt'', ''/root/c'']"
    by (simp add: listedPaths_def demoListing_def trim_def isWhiteSpace_def)
  have first: "fold (getFileContentTree_step demoWorld ''c_cat'' ''/root'')
      [''/root/a'', ''/root/a/b.txt'', ''/root/c'']
      \<lparr> st = s0, objs = [rootItem ''/root''],
        fileTree = [(''/root'', 0)], pathToItemMap = [], filesToRead = [] \<rparr> = acc"
    by (simp add: getFileContentTree_step_def getFileStat_def execInContainer_def execAsync_def
        demoWorld_def freshState_def trim_def isWhiteSpace_def s0_def acc_def)
  have reads: "readFilesBatch demoWorld (st acc) ''c_cat'' (filesToRead acc)
      = ([(''/root/a/b.txt'', ''Error reading file: Command failed: cat'')], s2)"
    by (simp add: readFilesBatch_def readFilesBatch_loop.simps batchSize_def setAll_def readOne_def
        readFile_def execInContainer_def execAsync_def demoWorld_def freshState_def acc_def s2_def)
  have second: "fold (setContent (pathToItemMap acc))
      [(''/root/a/b.txt'', ''Error reading file: Command failed: cat'')] (objs acc) = h1"
    by (simp add: setContent_def acc_def h1_def)
  have third: "fold (\<lambda>a h. attach ''/root'' (fileTree acc) h a) (map snd (pathToItemMap acc)) h1 = h2"
    by (simp add: attach_def acc_def h1_def h2_def parentKey_def substring0_def newItem_def rootItem_def)
  have loops: "getFileContentTree_loops demoWorld s0 ''c_cat'' ''/root''
      [''/root/a'', ''/root/a/b.txt'', ''/root/c''] = ((h2, acc), s2)"
    unfolding getFileContentTree_loops_def first Let_def reads prod.case second third ..
  have forest: "rootChildren h2 (fileTree acc) ''/root''
      = [FileItem ''a'' ''/root/a'' Directory
               (Some [FileItem ''b.txt'' ''/root/a/b.txt'' File None
                        (Some ''Error reading file: Command failed: cat'')]) None,
             FileItem ''c'' ''/root/c'' Directory (Some []) None]"
    by (simp add: rootChildren_def resolve_def List.map_filter_def h2_def acc_def newItem_def
        rootItem_def fileNameOf_def)
  have run: "getFileContentTree demoWorld freshState ''c_cat'' ''/root''
      = (Inr (rootChildren h2 (fileTree acc) ''/root''), s2)"
  proof -
    have find: "exec demoWorld (events freshState) (FindContentTree ''c_cat'' ''/root'') = Inr demoListing"
      by (simp add: demoWorld_def)
    have start: "freshState\<lparr>events := events freshState @ [Exec (FindContentTree ''c_cat'' ''/root'')]\<rparr> = s0"
      by (simp add: s0_def freshState_def)
    show ?thesis
      by (simp add: getFileContentTree_def execInContainer_def execAsync_def find start paths loops)
  qed
  have d: "distinct [''/root/a/b.txt'', ''/root/x''] \<and> 1 < length [''/root/a/b.txt'', ''/root/x'']"
    by simp
  from getFileContentTree_read_failures [where ps = "[''/root/a/b.txt'', ''/root/x'']" and k = 1
      and w = demoWorld and s = freshState and containerId = "''c_cat''"] d
  have one: "map_of (fst (readFilesBatch demoWorld freshState ''c_cat'' [''/root/a/b.txt'', ''/root/x''])) ''/root/x''
     = Some ''Error reading file: Command failed: cat''"
    by (simp add: demoWorld_def)
  from getFileContentTree_read_failures [where ps = "[''/root/a/b.txt'', ''/root/x'']" and k = 1
      and w = demoWorld and s = freshState and containerId = "''c_run''"] d
  have two: "map_of (fst (readFilesBatch demoWorld freshState ''c_run'' [''/root/a/b.txt'', ''/root/x''])) ''/root/x''
     = Some ''hello''"
    by (simp add: demoWorld_def stripBOM_def)
  from run forest one two show ?thesis by (simp add: s2_def)
qed

section \<open>The heap of \<open>getFileTree\<close> and its reading\<close>

text \<open>
  The loop of \<open>getFileTree\<close> keeps every child behind its parent in allocation
  order, so the trees read from its heap do not depend on the depth bound once that
  bound is the number of objects: nothing is cut off by it.
\<close>

lemma map_filter_cong:
  "(\<And>x. x \<in> set xs \<Longrightarrow> f x = g x) \<Longrightarrow> List.map_filter f xs = List.map_filter g xs"
  by (induction xs) (simp_all add: List.map_filter_simps split: option.splits)

lemma resolveN_enough:
  assumes "forward h"
  shows "a < length h \<Longrightarrow> length h - a \<le> n \<Longrightarrow> length h - a \<le> m \<Longrightarrow> resolveN n h a = resolveN m h a"
proof (induction n arbitrary: m a)
  case 0
  then show ?case by simp
next
  case (Suc n)
  from Suc.prems obtain m' where m: "m = Suc m'"
    by (cases m) auto
  have "List.map_filter (resolveN n h) cs = List.map_filter (resolveN m' h) cs"
    if cs: "children (h ! a) = Some cs" for cs
  proof (rule map_filter_cong)
    fix c assume "c \<in> set cs"
    with assms Suc.prems(1) cs have c: "a < c" "c < length h"
      unfolding forward_def by blast+
    with Suc.prems m show "resolveN n h c = resolveN m' h c"
      by (intro Suc.IH) auto
  qed
  then show ?case
    by (cases "children (h ! a)") (simp_all add: m Suc.prems(1))
qed

lemma resolve_more_fuel:
  assumes "forward h" and "a < length h" and "length h \<le> n"
  shows "resolveN n h a = resolve h a"
  unfolding resolve_def using assms by (intro resolveN_enough) auto

lemma getFileTree_step_inv:
  assumes inv: "treeInv h ft"
    and ne: "p \<noteq> containerPath"
    and step: "getFileTree_step w containerId containerPath p (s, h, ft) = (s', h', ft')"
  shows "treeInv h' ft'"
proof -
  obtain b s1 where stat: "getFileStat w s containerId p = (b, s1)"
    by (cases "getFileStat w s containerId p")
  define h1 where "h1 = h @ [newItem containerPath p b]"
  define ft1 where "ft1 = AList.update p (length h) ft"
  from step stat have h': "h' = attach containerPath ft1 h1 (length h)" and ft': "ft' = ft1"
    by (auto simp: getFileTree_step_def h1_def ft1_def Let_def)
  from inv have fw: "forward h" and rng: "\<And>k a. map_of ft k = Some a \<Longrightarrow> a < length h"
    by (auto simp: treeInv_def)
  have fw1: "forward h1"
    unfolding forward_def
  proof (intro allI impI)
    fix a cs c
    assume A: "a < length h1 \<and> children (h1 ! a) = Some cs \<and> c \<in> set cs"
    show "a < c \<and> c < length h1"
    proof (cases "a < length h")
      case True
      with A have "children (h ! a) = Some cs" by (simp add: h1_def nth_append)
      with fw True A have "a < c \<and> c < length h"
        unfolding forward_def by blast
      then show ?thesis by (simp add: h1_def)
    next
      case False
      with A have "a = length h" by (simp add: h1_def)
      with A have "cs = []"
        by (cases b) (simp_all add: h1_def newItem_def)
      with A show ?thesis by simp
    qed
  qed
  have rng1: "a < length h1" if "map_of ft1 k = Some a" for k a
    using that rng [of k a] by (auto simp: ft1_def h1_def update_conv' split: if_splits)
  have new: "path (h1 ! length h) = p"
    by (simp add: h1_def newItem_def)
  have key: "parentKey containerPath p \<noteq> p"
    using parentKey_cases [of containerPath p] ne by auto
  have fw': "forward h'"
  proof (cases "map_of ft1 (parentKey containerPath p)")
    case None
    with fw1 show ?thesis by (simp add: h' attach_def new)
  next
    case (Some parent)
    with key have "map_of ft (parentKey containerPath p) = Some parent"
      by (simp add: ft1_def update_conv')
    from rng [OF this] have parent: "parent < length h" .
    show ?thesis
    proof (cases "children (h1 ! parent)")
      case None
      with Some fw1 show ?thesis by (simp add: h' attach_def new)
    next
      case (Some cs)
      have eq: "h' = h1[parent := (h1 ! parent)\<lparr>children := Some (cs @ [length h])\<rparr>]"
        using Some \<open>map_of ft1 (parentKey containerPath p) = Some parent\<close>
        by (simp add: h' attach_def new)
      have len: "length h1 = Suc (length h)" by (simp add: h1_def)
      show ?thesis
        unfolding forward_def
      proof (intro allI impI)
        fix a cs' c
        assume A: "a < length h' \<and> children (h' ! a) = Some cs' \<and> c \<in> set cs'"
        show "a < c \<and> c < length h'"
        proof (cases "a = parent")
          case True
          with A eq parent len have "cs' = cs @ [length h]" by simp
          with A have "c \<in> set cs \<or> c = length h" by auto
          then show ?thesis
          proof
            assume "c \<in> set cs"
            with fw1 Some parent len have "parent < c \<and> c < length h1"
              unfolding forward_def by (metis less_Suc_eq)
            with True eq show ?thesis by simp
          next
            assume "c = length h"
            with True parent eq len show ?thesis by simp
          qed
        next
          case False
          with A eq have "a < length h1 \<and> children (h1 ! a) = Some cs' \<and> c \<in> set cs'"
            by simp
          with fw1 have "a < c \<and> c < length h1"
            unfolding forward_def by blast
          with eq show ?thesis by simp
        qed
      qed
    qed
  qed
  have "a < length h'" if "map_of ft' k = Some a" for k a
    using rng1 [of k a] that by (simp add: ft' h' attach_frame)
  with fw' show ?thesis
    unfolding treeInv_def by blast
qed

lemma getFileTree_fold_inv:
  assumes "treeInv h ft"
    and "containerPath \<notin> set ps"
    and "fold (getFileTree_step w containerId containerPath) ps (s, h, ft) = (s', h', ft')"
  shows "treeInv h' ft'"
  using assms
proof (induction ps arbitrary: s h ft)
  case Nil
  then show ?case by simp
next
  case (Cons p ps)
  obtain s1 h1 ft1 where step: "getFileTree_step w containerId containerPath p (s, h, ft) = (s1, h1, ft1)"
    by (cases "getFileTree_step w containerId containerPath p (s, h, ft)")
  from Cons.prems have ne: "p \<noteq> containerPath" and rest: "containerPath \<notin> set ps"
    by auto
  from getFileTree_step_inv [OF Cons.prems(1) ne step] have inv1: "treeInv h1 ft1" .
  from Cons.prems(3) step
  have run: "fold (getFileTree_step w containerId containerPath) ps (s1, h1, ft1) = (s', h', ft')"
    by simp
  from Cons.IH [OF inv1 rest run] show ?case .
qed

lemma getFileTree_heap_forward:
  assumes "fold (getFileTree_step w containerId containerPath) (listedPaths containerPath out)
             (s, [rootItem containerPath], [(containerPath, 0)]) = (s', h', ft')"
  shows "forward h' \<and> (\<forall>a n. a < length h' \<and> length h' \<le> n \<longrightarrow> resolveN n h' a = resolve h' a)"
proof -
  have "treeInv [rootItem containerPath] [(containerPath, 0)]"
    by (simp add: treeInv_def forward_def rootItem_def)
  moreover have "containerPath \<notin> set (listedPaths containerPath out)"
    by (simp add: listedPaths_def)
  ultimately have "treeInv h' ft'"
    using assms by (rule getFileTree_fold_inv)
  then have "forward h'" by (simp add: treeInv_def)
  then show ?thesis
    using resolve_more_fuel by blast
qed

section \<open>A path whose \<open>stat\<close> is rejected\<close>
























subsection \<open>From the heap to the returned forest\<close>













subsection \<open>Two hosts with rejected \<open>stat\<close> commands\<close>








end
